theory Spec2Isabelle
  imports Complex_Main "HOL-Library.AList"
begin

section \<open>Supervision of the noise-stream worker processes\<close>

text \<open>
  A shallow embedding of \<^verbatim>\<open>noise_runner.py\<close> (the FFmpeg process runner),
  \<^verbatim>\<open>noise_manager.py\<close> (the stream registry) and the health monitor of
  \<^verbatim>\<open>app.py\<close>.

  The Python objects that are shared by reference (the \<^verbatim>\<open>StreamInfo\<close> records held by
  the registry's dictionary and handed out by \<^verbatim>\<open>get_stream\<close>) live in an explicit object
  store; everything the code asks of the operating system (the search path, process
  creation, process exit status, the files on disk, the clock) is read from an explicit
  \<open>os\<close> value that each operation takes and returns.  Exceptions are values: an operation
  returns \<open>Inl e\<close> when the Python code lets exception \<open>e\<close> escape to its caller.

  Conventions: strings are ASCII; a \<^verbatim>\<open>pathlib.Path\<close> is the string it prints as; wall-clock
  instants are real numbers; the locks are not modelled, every operation runs atomically
  (each one holds the manager's lock for its whole body).
\<close>

subsection \<open>Strings and paths\<close>

type_synonym path = string

definition path_join :: "path \<Rightarrow> string \<Rightarrow> path" where
  "path_join d name = d @ ''/'' @ name"

definition lower_char :: "char \<Rightarrow> char" where
  "lower_char c =
     (case map_of (zip ''ABCDEFGHIJKLMNOPQRSTUVWXYZ'' ''abcdefghijklmnopqrstuvwxyz'') c of
        None \<Rightarrow> c
      | Some d \<Rightarrow> d)"

definition lower :: "string \<Rightarrow> string" where
  "lower s = map lower_char s"

definition startswith :: "string \<Rightarrow> string \<Rightarrow> bool" where
  "startswith s p = (take (length p) s = p)"

definition removeprefix :: "string \<Rightarrow> string \<Rightarrow> string" where
  "removeprefix s p = (if startswith s p then drop (length p) s else s)"

definition digit_char :: "nat \<Rightarrow> char" where
  "digit_char d = ''0123456789'' ! d"

fun str_nat :: "nat \<Rightarrow> string" where
  "str_nat n = (if n < 10 then [digit_char n] else str_nat (n div 10) @ [digit_char (n mod 10)])"

definition str_int :: "int \<Rightarrow> string" where
  "str_int i = (if i < 0 then ''-'' @ str_nat (nat (- i)) else str_nat (nat i))"

subsection \<open>The operating system as the code sees it\<close>

text \<open>
  A \<open>proc\<close> names one \<^verbatim>\<open>subprocess.Popen\<close> object (it doubles as the pid).
  \<open>returncode w p\<close> is what \<^verbatim>\<open>p.poll()\<close> returns: \<open>None\<close> while the process runs.

  \<^verbatim>\<open>subprocess.Popen\<close> raises \<^verbatim>\<open>OSError\<close> when the operating system refuses to create the
  process; \<^verbatim>\<open>FileNotFoundError\<close> is the subclass for a missing executable.
  \<^verbatim>\<open>subprocess.SubprocessError\<close> derives from \<^verbatim>\<open>Exception\<close>, not from \<^verbatim>\<open>OSError\<close>.
  The constructor \<open>OSError\<close> below stands for every \<^verbatim>\<open>OSError\<close> that is not a
  \<^verbatim>\<open>FileNotFoundError\<close> (permission denied, exec format error, out of processes or
  file descriptors).
\<close>

type_synonym proc = nat

datatype py_exception = FileNotFoundError | SubprocessError | OSError

datatype popen_outcome = Spawned | Raised py_exception

record os =
  which_ffmpeg :: bool
  popen :: "string list \<Rightarrow> popen_outcome"
  next_proc :: proc
  argv :: "proc \<Rightarrow> string list"
  returncode :: "proc \<Rightarrow> int option"
  exit_on_terminate :: "proc \<Rightarrow> int"
  file_exists :: "path \<Rightarrow> bool"
  st_mtime :: "path \<Rightarrow> real option"
  clock :: real

text \<open>
  \<open>which_ffmpeg\<close>: \<^verbatim>\<open>shutil.which("ffmpeg")\<close> finds the executable.
  \<open>popen cmd\<close>: what \<^verbatim>\<open>subprocess.Popen(cmd, ...)\<close> does now.
  \<open>next_proc\<close>: the processes \<open>0 ..< next_proc\<close> have been created; \<open>argv p\<close> is the
  command line process \<open>p\<close> was created with.
  \<open>exit_on_terminate p\<close>: the exit status \<open>p\<close> ends with when terminated or killed.
  \<open>st_mtime f\<close>: the modification time \<^verbatim>\<open>stat()\<close> reports, \<open>None\<close> when \<^verbatim>\<open>stat()\<close>
  raises \<^verbatim>\<open>OSError\<close>.  \<open>clock\<close>: \<^verbatim>\<open>time.time()\<close>.
\<close>

subsection \<open>\<^verbatim>\<open>config.FFmpegConfig\<close>\<close>

record FFmpegConfig =
  sample_rate :: int
  audio_bitrate :: string
  segment_time :: int
  list_size :: int

subsection \<open>\<^verbatim>\<open>noise_runner.NoiseFFmpegRunner\<close>\<close>

record NoiseFFmpegRunner =
  runner_noise_type :: string
  config :: FFmpegConfig
  hls_dir :: path
  process :: "proc option"
  last_error :: "string option"

definition NoiseFFmpegRunner_init :: "string \<Rightarrow> FFmpegConfig \<Rightarrow> path \<Rightarrow> NoiseFFmpegRunner" where
  "NoiseFFmpegRunner_init noise cfg dir =
     \<lparr>runner_noise_type = lower noise, config = cfg, hls_dir = dir,
      process = None, last_error = None\<rparr>"

definition build_command :: "NoiseFFmpegRunner \<Rightarrow> string list" where
  "build_command r =
     (let output_path = path_join (hls_dir r) ''stream.m3u8'';
          segment_path = path_join (hls_dir r) ''segment%03d.ts'';
          source = ''anoisesrc=color='' @ runner_noise_type r @ '':sample_rate=''
                     @ str_int (sample_rate (config r))
      in [''ffmpeg'',
          ''-f'', ''lavfi'',
          ''-i'', source,
          ''-c:a'', ''aac'',
          ''-b:a'', audio_bitrate (config r),
          ''-f'', ''hls'',
          ''-hls_time'', str_int (segment_time (config r)),
          ''-hls_list_size'', str_int (list_size (config r)),
          ''-hls_flags'', ''delete_segments'',
          ''-hls_segment_filename'', segment_path,
          output_path])"

definition is_running :: "os \<Rightarrow> NoiseFFmpegRunner \<Rightarrow> bool" where
  "is_running w r =
     (case process r of None \<Rightarrow> False | Some p \<Rightarrow> returncode w p = None)"

text \<open>
  \<^verbatim>\<open>start\<close>: the two \<^verbatim>\<open>except\<close> clauses catch \<^verbatim>\<open>FileNotFoundError\<close> and
  \<^verbatim>\<open>subprocess.SubprocessError\<close>; any other exception of \<^verbatim>\<open>Popen\<close> leaves the method.
  Creating the output directory and starting the stderr reader thread are taken to
  succeed; the reader thread only writes \<open>last_error\<close>, which no operation below reads
  except \<open>runner_get_status\<close>.
\<close>

definition start :: "os \<Rightarrow> NoiseFFmpegRunner \<Rightarrow> (py_exception + bool) \<times> NoiseFFmpegRunner \<times> os" where
  "start w r =
     (if is_running w r then (Inr False, r, w)
      else if \<not> which_ffmpeg w then (Inr False, r, w)
      else
        (case popen w (build_command r) of
           Spawned \<Rightarrow>
             (let p = next_proc w
              in (Inr True,
                  r\<lparr>process := Some p, last_error := None\<rparr>,
                  w\<lparr>next_proc := Suc p,
                    argv := (argv w)(p := build_command r),
                    returncode := (returncode w)(p := None)\<rparr>))
         | Raised e \<Rightarrow>
             (if e = FileNotFoundError then (Inr False, r, w)
              else if e = SubprocessError then (Inr False, r, w)
              else (Inl e, r, w))))"

text \<open>
  \<^verbatim>\<open>stop\<close>: \<^verbatim>\<open>terminate()\<close>, a bounded \<^verbatim>\<open>wait\<close>, then \<^verbatim>\<open>kill()\<close> and \<^verbatim>\<open>wait()\<close>: either way the
  process has exited when the method clears the handle.
\<close>

definition stop :: "os \<Rightarrow> NoiseFFmpegRunner \<Rightarrow> bool \<times> NoiseFFmpegRunner \<times> os" where
  "stop w r =
     (case process r of
        None \<Rightarrow> (False, r, w)
      | Some p \<Rightarrow>
          (if returncode w p \<noteq> None then (True, r\<lparr>process := None\<rparr>, w)
           else (True, r\<lparr>process := None\<rparr>,
                 w\<lparr>returncode := (returncode w)(p := Some (exit_on_terminate w p))\<rparr>)))"

record runner_status =
  rs_running :: bool
  rs_pid :: "proc option"
  rs_exit_code :: "int option"
  rs_error :: "string option"

definition runner_get_status :: "os \<Rightarrow> NoiseFFmpegRunner \<Rightarrow> runner_status" where
  "runner_get_status w r =
     (case process r of
        None \<Rightarrow> \<lparr>rs_running = False, rs_pid = None, rs_exit_code = None, rs_error = None\<rparr>
      | Some p \<Rightarrow>
          (case returncode w p of
             Some code \<Rightarrow>
               \<lparr>rs_running = False, rs_pid = None, rs_exit_code = Some code,
                rs_error = last_error r\<rparr>
           | None \<Rightarrow>
               \<lparr>rs_running = True, rs_pid = Some p, rs_exit_code = None,
                rs_error = last_error r\<rparr>))"

subsection \<open>\<^verbatim>\<open>noise_manager.StreamInfo\<close>\<close>

datatype StreamState = STOPPED | STARTING | RUNNING | ERROR


record StreamInfo =
  stream_id :: string
  noise_type :: string
  runner :: NoiseFFmpegRunner
  state :: StreamState
  started_at :: "real option"
  error_message :: "string option"
  hls_path :: "string option"




record stream_health =
  h_stream_id :: string
  h_noise_type :: string
  h_status :: string
  h_process_running :: bool
  h_hls_available :: bool
  h_manifest_fresh :: bool
  h_error :: "string option"

text \<open>
  Lines 52 to 63 of \<^verbatim>\<open>StreamInfo.health_check\<close>: the pair
  \<open>(hls_available, manifest_fresh)\<close>.
\<close>

definition manifest_probe :: "os \<Rightarrow> string option \<Rightarrow> bool \<times> bool" where
  "manifest_probe w hp =
     (case hp of
        None \<Rightarrow> (False, False)
      | Some d \<Rightarrow>
          (if d = [] then (False, False)
           else
             (let manifest_path = path_join d ''stream.m3u8'';
                  hls_available = file_exists w manifest_path
              in if hls_available then
                   (case st_mtime w manifest_path of
                      Some mtime \<Rightarrow> (hls_available, clock w - mtime < 10)
                    | None \<Rightarrow> (hls_available, False))
                 else (hls_available, False))))"

definition StreamInfo_health_check :: "os \<Rightarrow> StreamInfo \<Rightarrow> stream_health" where
  "StreamInfo_health_check w s =
     (let runner_status = runner_get_status w (runner s);
          is_running = rs_running runner_status;
          (hls_available, manifest_fresh) = manifest_probe w (hls_path s);
          status =
            (if state s = RUNNING \<and> is_running \<and> hls_available \<and> manifest_fresh
               then ''healthy''
             else if state s = RUNNING \<and> is_running \<and> hls_available \<and> \<not> manifest_fresh
               then ''unhealthy''
             else if state s = STOPPED then ''stopped''
             else if state s = STARTING then ''starting''
             else ''unhealthy'')
      in \<lparr>h_stream_id = stream_id s,
          h_noise_type = noise_type s,
          h_status = status,
          h_process_running = is_running,
          h_hls_available = hls_available,
          h_manifest_fresh = manifest_fresh,
          h_error = error_message s\<rparr>)"

subsection \<open>\<^verbatim>\<open>noise_manager.NoiseStreamManager\<close>\<close>

text \<open>
  \<open>store\<close> holds the \<^verbatim>\<open>StreamInfo\<close> objects ever constructed, in order of construction: an
  object's address is its index, and constructing an object appends it.  \<open>streams\<close> is the
  dictionary \<^verbatim>\<open>_streams\<close>, from identifiers to addresses, in insertion order
  (\<open>AList.update\<close> replaces the value of a key that is present and appends a new key, as a
  Python dictionary does).  A reference always points to an object: that every address in
  \<open>streams\<close> is an index of \<open>store\<close> is part of the invariant \<open>registry_inv\<close> below, and
  the operations are only ever read at such addresses.
\<close>

type_synonym addr = nat

record NoiseStreamManager =
  base_hls_dir :: path
  base_ffmpeg_config :: FFmpegConfig
  noise_types :: "string list"
  streams :: "(string \<times> addr) list"
  store :: "StreamInfo list"

definition NoiseStreamManager_init :: "path \<Rightarrow> FFmpegConfig \<Rightarrow> string list \<Rightarrow> NoiseStreamManager" where
  "NoiseStreamManager_init dir cfg types =
     \<lparr>base_hls_dir = dir, base_ffmpeg_config = cfg, noise_types = map lower types,
      streams = [], store = []\<rparr>"


definition get_stream :: "NoiseStreamManager \<Rightarrow> string \<Rightarrow> addr option" where
  "get_stream m sid = map_of (streams m) sid"

definition create_stream_for_noise :: "NoiseStreamManager \<Rightarrow> string \<Rightarrow> StreamInfo" where
  "create_stream_for_noise m noise =
     (let sid = ''noise_'' @ noise;
          dir = path_join (base_hls_dir m) sid;
          rn = NoiseFFmpegRunner_init noise (base_ffmpeg_config m) dir
      in \<lparr>stream_id = sid, noise_type = noise, runner = rn, state = STOPPED,
          started_at = None, error_message = None, hls_path = Some dir\<rparr>)"

text \<open>
  \<^verbatim>\<open>_create_stream_for_noise\<close> builds the record; creating the output directory is taken
  to succeed, as in \<open>start\<close>.  \<open>new_info\<close> puts a constructed object into the store;
  \<open>set_info\<close> assigns to fields of the object at an address.
\<close>

definition new_info :: "NoiseStreamManager \<Rightarrow> StreamInfo \<Rightarrow> addr \<times> NoiseStreamManager" where
  "new_info m info = (length (store m), m\<lparr>store := store m @ [info]\<rparr>)"

definition set_info :: "addr \<Rightarrow> (StreamInfo \<Rightarrow> StreamInfo) \<Rightarrow> NoiseStreamManager \<Rightarrow> NoiseStreamManager" where
  "set_info a f m = m\<lparr>store := (store m)[a := f (store m ! a)]\<rparr>"

record op_result =
  success :: bool
  message :: "string option"
  error :: "string option"
  stream_url :: "string option"

definition ok_result :: "string \<Rightarrow> op_result" where
  "ok_result msg = \<lparr>success = True, message = Some msg, error = None, stream_url = None\<rparr>"

definition error_result :: "string \<Rightarrow> op_result" where
  "error_result err = \<lparr>success = False, message = None, error = Some err, stream_url = None\<rparr>"

text \<open>
  \<^verbatim>\<open>start_stream\<close> from line 217 on, for the record at address \<open>a\<close>.  When
  \<^verbatim>\<open>runner.start()\<close> raises, the exception leaves \<^verbatim>\<open>start_stream\<close> after line 219 has
  run.
\<close>

definition start_record :: "os \<Rightarrow> NoiseStreamManager \<Rightarrow> string \<Rightarrow> addr \<Rightarrow>
    (py_exception + op_result) \<times> NoiseStreamManager \<times> os" where
  "start_record w m sid a =
     (if is_running w (runner (store m ! a)) then (Inr (ok_result ''Stream already running''), m, w)
      else
        (let m1 = set_info a (\<lambda>i. i\<lparr>state := STARTING\<rparr>) m
         in case start w (runner (store m1 ! a)) of
              (Inl e, rn, w1) \<Rightarrow> (Inl e, set_info a (\<lambda>i. i\<lparr>runner := rn\<rparr>) m1, w1)
            | (Inr True, rn, w1) \<Rightarrow>
                (Inr ((ok_result ''Stream started'')
                        \<lparr>stream_url := Some (''/hls/'' @ sid @ ''/stream.m3u8'')\<rparr>),
                 set_info a (\<lambda>i. i\<lparr>runner := rn, state := RUNNING,
                                  started_at := Some (clock w1), error_message := None\<rparr>) m1,
                 w1)
            | (Inr False, rn, w1) \<Rightarrow>
                (Inr (error_result ''Failed to start stream''),
                 set_info a (\<lambda>i. i\<lparr>runner := rn, state := ERROR,
                                  error_message := Some ''Failed to start FFmpeg process''\<rparr>) m1,
                 w1)))"

definition start_stream :: "os \<Rightarrow> NoiseStreamManager \<Rightarrow> string \<Rightarrow>
    (py_exception + op_result) \<times> NoiseStreamManager \<times> os" where
  "start_stream w m sid =
     (case map_of (streams m) sid of
        Some a \<Rightarrow> start_record w m sid a
      | None \<Rightarrow>
          (if \<not> startswith sid ''noise_'' then (Inr (error_result ''Stream not found''), m, w)
           else
             (let noise = removeprefix sid ''noise_''
              in if noise \<notin> set (noise_types m)
                 then (Inr (error_result ''Invalid noise type''), m, w)
                 else
                   (let (a, m1) = new_info m (create_stream_for_noise m noise);
                        m2 = m1\<lparr>streams := AList.update sid a (streams m1)\<rparr>
                    in start_record w m2 sid a))))"

definition stop_stream :: "os \<Rightarrow> NoiseStreamManager \<Rightarrow> string \<Rightarrow>
    op_result \<times> NoiseStreamManager \<times> os" where
  "stop_stream w m sid =
     (case map_of (streams m) sid of
        None \<Rightarrow> (error_result ''Stream not found'', m, w)
      | Some a \<Rightarrow>
          (if \<not> is_running w (runner (store m ! a))
           then (ok_result ''Stream was not running'', m, w)
           else
             (case stop w (runner (store m ! a)) of
                (True, rn, w1) \<Rightarrow>
                  (ok_result ''Stream stopped'',
                   set_info a (\<lambda>i. i\<lparr>runner := rn, state := STOPPED, started_at := None\<rparr>) m,
                   w1)
              | (False, rn, w1) \<Rightarrow>
                  (error_result ''Failed to stop stream'',
                   set_info a (\<lambda>i. i\<lparr>runner := rn\<rparr>) m, w1))))"

text \<open>
  \<^verbatim>\<open>start_all_streams\<close>: the body of the loop, for one entry of \<^verbatim>\<open>noise_types\<close>; the
  accumulator is \<open>(results, started_count, failed_count)\<close>.  The new record enters the
  dictionary on line 156 only, after \<^verbatim>\<open>runner.start()\<close> has returned.
\<close>

record start_entry =
  e_stream_id :: string
  e_status :: string
  e_noise :: string
  e_stream_url :: "string option"
  e_error :: "string option"

definition start_all_step :: "os \<Rightarrow> NoiseStreamManager \<Rightarrow> string \<Rightarrow>
    start_entry list \<times> nat \<times> nat \<Rightarrow>
    (py_exception + start_entry list \<times> nat \<times> nat) \<times> NoiseStreamManager \<times> os" where
  "start_all_step w m noise acc =
     (case acc of (results, started_count, failed_count) \<Rightarrow>
        (let sid = ''noise_'' @ noise
         in if (case map_of (streams m) sid of
                  None \<Rightarrow> False
                | Some existing \<Rightarrow> is_running w (runner (store m ! existing)))
            then (Inr (results @ [\<lparr>e_stream_id = sid, e_status = ''already_running'',
                                   e_noise = noise, e_stream_url = None, e_error = None\<rparr>],
                       started_count + 1, failed_count), m, w)
            else
              (let (a, m1) = new_info m (create_stream_for_noise m noise);
                   m2 = set_info a (\<lambda>i. i\<lparr>state := STARTING\<rparr>) m1
               in case start w (runner (store m2 ! a)) of
                    (Inl e, rn, w1) \<Rightarrow> (Inl e, set_info a (\<lambda>i. i\<lparr>runner := rn\<rparr>) m2, w1)
                  | (Inr True, rn, w1) \<Rightarrow>
                      (let m3 = set_info a (\<lambda>i. i\<lparr>runner := rn, state := RUNNING,
                                   started_at := Some (clock w1), error_message := None\<rparr>) m2
                       in (Inr (results @ [\<lparr>e_stream_id = sid, e_status = ''started'',
                                  e_noise = noise,
                                  e_stream_url = Some (''/hls/'' @ sid @ ''/stream.m3u8''),
                                  e_error = None\<rparr>],
                                started_count + 1, failed_count),
                           m3\<lparr>streams := AList.update sid a (streams m3)\<rparr>, w1))
                  | (Inr False, rn, w1) \<Rightarrow>
                      (let m3 = set_info a (\<lambda>i. i\<lparr>runner := rn, state := ERROR,
                                   error_message := Some ''Failed to start FFmpeg process''\<rparr>) m2
                       in (Inr (results @ [\<lparr>e_stream_id = sid, e_status = ''failed'',
                                  e_noise = noise, e_stream_url = None,
                                  e_error = error_message (store m3 ! a)\<rparr>],
                                started_count, failed_count + 1),
                           m3\<lparr>streams := AList.update sid a (streams m3)\<rparr>, w1)))))"

fun start_all_loop :: "os \<Rightarrow> NoiseStreamManager \<Rightarrow> string list \<Rightarrow>
    start_entry list \<times> nat \<times> nat \<Rightarrow>
    (py_exception + start_entry list \<times> nat \<times> nat) \<times> NoiseStreamManager \<times> os" where
  "start_all_loop w m [] acc = (Inr acc, m, w)"
| "start_all_loop w m (noise # rest) acc =
     (case start_all_step w m noise acc of
        (Inl e, m1, w1) \<Rightarrow> (Inl e, m1, w1)
      | (Inr acc1, m1, w1) \<Rightarrow> start_all_loop w1 m1 rest acc1)"

record start_all_summary =
  sa_success :: bool
  sa_message :: string
  total_streams :: nat
  started :: nat
  failed :: nat
  sa_streams :: "start_entry list"

definition start_all_streams :: "os \<Rightarrow> NoiseStreamManager \<Rightarrow>
    (py_exception + start_all_summary) \<times> NoiseStreamManager \<times> os" where
  "start_all_streams w m =
     (case start_all_loop w m (noise_types m) ([], 0, 0) of
        (Inl e, m1, w1) \<Rightarrow> (Inl e, m1, w1)
      | (Inr (results, started_count, failed_count), m1, w1) \<Rightarrow>
          (Inr \<lparr>sa_success = (started_count > 0),
                sa_message = ''Started '' @ str_int (int started_count) @ '' streams, ''
                               @ str_int (int failed_count) @ '' failed'',
                total_streams = length (noise_types m1),
                started = started_count,
                failed = failed_count,
                sa_streams = results\<rparr>, m1, w1))"

text \<open>\<^verbatim>\<open>stop_all_streams\<close>: the loop runs over the items of the dictionary.\<close>

record stop_entry =
  se_stream_id :: string
  se_status :: string

definition stop_all_step :: "os \<Rightarrow> NoiseStreamManager \<Rightarrow> string \<times> addr \<Rightarrow>
    stop_entry list \<times> nat \<Rightarrow> (stop_entry list \<times> nat) \<times> NoiseStreamManager \<times> os" where
  "stop_all_step w m item acc =
     (case (item, acc) of ((sid, a), (results, stopped_count)) \<Rightarrow>
        (if is_running w (runner (store m ! a)) then
           (case stop w (runner (store m ! a)) of
              (True, rn, w1) \<Rightarrow>
                ((results @ [\<lparr>se_stream_id = sid, se_status = ''stopped''\<rparr>], stopped_count + 1),
                 set_info a (\<lambda>i. i\<lparr>runner := rn, state := STOPPED, started_at := None\<rparr>) m,
                 w1)
            | (False, rn, w1) \<Rightarrow>
                ((results @ [\<lparr>se_stream_id = sid, se_status = ''failed_to_stop''\<rparr>],
                  stopped_count),
                 set_info a (\<lambda>i. i\<lparr>runner := rn\<rparr>) m, w1))
         else
           ((results @ [\<lparr>se_stream_id = sid, se_status = ''was_not_running''\<rparr>], stopped_count),
            m, w)))"

fun stop_all_loop :: "os \<Rightarrow> NoiseStreamManager \<Rightarrow> (string \<times> addr) list \<Rightarrow>
    stop_entry list \<times> nat \<Rightarrow> (stop_entry list \<times> nat) \<times> NoiseStreamManager \<times> os" where
  "stop_all_loop w m [] acc = (acc, m, w)"
| "stop_all_loop w m (item # rest) acc =
     (case stop_all_step w m item acc of (acc1, m1, w1) \<Rightarrow> stop_all_loop w1 m1 rest acc1)"

record stop_all_summary =
  so_success :: bool
  so_message :: string
  stopped :: nat
  so_streams :: "stop_entry list"

definition stop_all_streams :: "os \<Rightarrow> NoiseStreamManager \<Rightarrow>
    stop_all_summary \<times> NoiseStreamManager \<times> os" where
  "stop_all_streams w m =
     (case stop_all_loop w m (streams m) ([], 0) of
        ((results, stopped_count), m1, w1) \<Rightarrow>
          (\<lparr>so_success = True,
            so_message = ''Stopped '' @ str_int (int stopped_count) @ '' streams'',
            stopped = stopped_count,
            so_streams = results\<rparr>, m1, w1))"








subsection \<open>The health monitor of \<^verbatim>\<open>app.py\<close>\<close>





section \<open>Observations, reference definitions and sample states\<close>

subsection \<open>What a health check observes of the manifest\<close>

definition manifest_exists :: "os \<Rightarrow> StreamInfo \<Rightarrow> bool" where
  "manifest_exists w s =
     (case hls_path s of
        None \<Rightarrow> False
      | Some d \<Rightarrow> d \<noteq> [] \<and> file_exists w (path_join d ''stream.m3u8''))"

definition manifest_age :: "os \<Rightarrow> StreamInfo \<Rightarrow> real option" where
  "manifest_age w s =
     (case hls_path s of
        None \<Rightarrow> None
      | Some d \<Rightarrow> map_option (\<lambda>mtime. clock w - mtime) (st_mtime w (path_join d ''stream.m3u8'')))"

definition age_within_window :: "real option \<Rightarrow> bool" where
  "age_within_window age = (case age of None \<Rightarrow> False | Some t \<Rightarrow> t < 10)"

text \<open>
  The classification as the specification words it, a function of the state, the
  liveness of the process, the existence of the manifest and its age.
\<close>

definition classify_spec :: "StreamState \<Rightarrow> bool \<Rightarrow> bool \<Rightarrow> real option \<Rightarrow> string" where
  "classify_spec st live present age =
     (if st = RUNNING \<and> live \<and> present \<and> age_within_window age then ''healthy''
      else if st = RUNNING \<and> live then ''unhealthy''
      else if st = STOPPED then ''stopped''
      else if st = STARTING then ''starting''
      else ''unhealthy'')"

subsection \<open>The aggregate status in the specification's words\<close>


subsection \<open>The invariant of the registry\<close>

text \<open>
  What holds of a registered record between operations: it carries its own identifier
  and output directory; it is not in state STARTING; a live process means state RUNNING;
  state RUNNING means that the runner holds a process handle; state ERROR comes with the
  fixed error message; a process handle names a process that
  was created with the runner's command line.
\<close>

definition info_ok :: "os \<Rightarrow> path \<Rightarrow> string \<Rightarrow> StreamInfo \<Rightarrow> bool" where
  "info_ok w base sid i \<longleftrightarrow>
     stream_id i = sid \<and>
     hls_dir (runner i) = path_join base sid \<and>
     state i \<noteq> STARTING \<and>
     (is_running w (runner i) \<longrightarrow> state i = RUNNING) \<and>
     (state i = RUNNING \<longrightarrow> process (runner i) \<noteq> None) \<and>
     (state i = ERROR \<longrightarrow> error_message i = Some ''Failed to start FFmpeg process'') \<and>
     (case process (runner i) of
        None \<Rightarrow> True
      | Some p \<Rightarrow> p < next_proc w \<and> argv w p = build_command (runner i))"

text \<open>\<open>held m p\<close>: some registered record's runner holds the handle of process \<open>p\<close>.\<close>

definition held :: "NoiseStreamManager \<Rightarrow> proc \<Rightarrow> bool" where
  "held m p = list_ex (\<lambda>(sid, a). process (runner (store m ! a)) = Some p) (streams m)"

text \<open>
  The registry's invariant: every registered record is well formed, no two identifiers
  share a record, and every process that runs is held by a registered record.
\<close>

definition registry_inv :: "os \<Rightarrow> NoiseStreamManager \<Rightarrow> bool" where
  "registry_inv w m \<longleftrightarrow>
     list_all (\<lambda>(sid, a). a < length (store m) \<and> info_ok w (base_hls_dir m) sid (store m ! a))
       (streams m) \<and>
     distinct (map fst (streams m)) \<and>
     distinct (map snd (streams m)) \<and>
     (\<forall>p<next_proc w. returncode w p = None \<longrightarrow> held m p)"

text \<open>
  How the operating system's state may move: processes are only added, a command line
  stays, and a process that has exited stays so.  \<open>env_step\<close> is a move the
  environment makes on its own (processes exit, files, clock and search path change).
\<close>

definition os_mono :: "os \<Rightarrow> os \<Rightarrow> bool" where
  "os_mono w w1 \<longleftrightarrow>
     next_proc w \<le> next_proc w1 \<and>
     (\<forall>p<next_proc w. argv w1 p = argv w p \<and> (returncode w1 p = None \<longrightarrow> returncode w p = None))"

definition env_step :: "os \<Rightarrow> os \<Rightarrow> bool" where
  "env_step w w1 \<longleftrightarrow> next_proc w1 = next_proc w \<and> os_mono w w1"

text \<open>The two changes \<open>start\<close> and \<open>stop\<close> make to the operating system's state.\<close>

definition spawned :: "os \<Rightarrow> string list \<Rightarrow> os" where
  "spawned w cmd =
     w\<lparr>next_proc := Suc (next_proc w), argv := (argv w)(next_proc w := cmd),
       returncode := (returncode w)(next_proc w := None)\<rparr>"

definition terminated :: "os \<Rightarrow> proc \<Rightarrow> os" where
  "terminated w p = w\<lparr>returncode := (returncode w)(p := Some (exit_on_terminate w p))\<rparr>"

text \<open>
  A record is resolved when it is RUNNING with a live process, or in ERROR with a
  non-empty error message.
\<close>

definition resolved :: "os \<Rightarrow> StreamInfo \<Rightarrow> bool" where
  "resolved w i \<longleftrightarrow>
     state i = RUNNING \<and> is_running w (runner i)
     \<or> state i = ERROR \<and> (\<exists>msg. error_message i = Some msg \<and> msg \<noteq> [])"

definition live_at :: "os \<Rightarrow> NoiseStreamManager \<Rightarrow> string \<Rightarrow> bool" where
  "live_at w m sid =
     (case map_of (streams m) sid of
        None \<Rightarrow> False
      | Some a \<Rightarrow> is_running w (runner (store m ! a)))"

definition resolved_at :: "os \<Rightarrow> NoiseStreamManager \<Rightarrow> string \<Rightarrow> bool" where
  "resolved_at w m sid =
     (case map_of (streams m) sid of
        None \<Rightarrow> False
      | Some a \<Rightarrow> resolved w (store m ! a))"

subsection \<open>Notions for \<^verbatim>\<open>start_all_streams\<close>\<close>

text \<open>
  \<open>frame m m'\<close>: the objects of \<open>m\<close> are unchanged in \<open>m'\<close>, which may hold more.
  \<open>quiet w w'\<close>: no process of \<open>w\<close> has changed its exit status in \<open>w'\<close>.
\<close>

definition frame :: "NoiseStreamManager \<Rightarrow> NoiseStreamManager \<Rightarrow> bool" where
  "frame m m' \<longleftrightarrow>
     base_hls_dir m' = base_hls_dir m \<and>
     base_ffmpeg_config m' = base_ffmpeg_config m \<and>
     noise_types m' = noise_types m \<and>
     length (store m) \<le> length (store m') \<and>
     (\<forall>b<length (store m). store m' ! b = store m ! b)"

definition quiet :: "os \<Rightarrow> os \<Rightarrow> bool" where
  "quiet w w' \<longleftrightarrow> os_mono w w' \<and> (\<forall>p<next_proc w. returncode w' p = returncode w p)"

text \<open>The entries of the result list, and what one pass of the loop body yields.\<close>

definition entry :: "string \<Rightarrow> string \<Rightarrow> start_entry \<Rightarrow> bool" where
  "entry noise st e \<longleftrightarrow>
     e_noise e = noise \<and> e_stream_id e = ''noise_'' @ noise \<and> e_status e = st"


definition count_entries :: "string \<Rightarrow> start_entry list \<Rightarrow> nat" where
  "count_entries st es = length (filter (\<lambda>e. e_status e = st) es)"

definition step_outcome :: "os \<Rightarrow> NoiseStreamManager \<Rightarrow> string \<Rightarrow>
    start_entry list \<times> nat \<times> nat \<Rightarrow> start_entry list \<times> nat \<times> nat \<Rightarrow>
    NoiseStreamManager \<Rightarrow> os \<Rightarrow> bool" where
  "step_outcome w m noise acc acc' m' w' \<longleftrightarrow>
     (case (acc, acc') of ((res, sc, fc), (res', sc', fc')) \<Rightarrow>
        \<exists>e. res' = res @ [e] \<and>
          (if live_at w m (''noise_'' @ noise)
           then entry noise ''already_running'' e \<and> sc' = Suc sc \<and> fc' = fc \<and> m' = m \<and> w' = w
           else map_of (streams m') (''noise_'' @ noise) = Some (length (store m))
                \<and> (entry noise ''started'' e \<and> sc' = Suc sc \<and> fc' = fc
                      \<and> next_proc w' = Suc (next_proc w)
                    \<or> entry noise ''failed'' e \<and> sc' = sc \<and> fc' = Suc fc \<and> w' = w)))"

subsection \<open>Reachable states\<close>

text \<open>
  The states of the operating system and the manager that arise from a new manager (no
  process created yet) by moves of the environment and by the registry's mutating
  operations, each run to the point where it returns a result.
\<close>

inductive reachable :: "os \<Rightarrow> NoiseStreamManager \<Rightarrow> bool" where
  init: "next_proc w = 0 \<Longrightarrow> reachable w (NoiseStreamManager_init dir cfg types)"
| env: "reachable w m \<Longrightarrow> env_step w w' \<Longrightarrow> reachable w' m"
| start_stream: "reachable w m \<Longrightarrow> start_stream w m sid = (Inr r, m', w') \<Longrightarrow> reachable w' m'"
| stop_stream: "reachable w m \<Longrightarrow> stop_stream w m sid = (r, m', w') \<Longrightarrow> reachable w' m'"
| start_all_streams:
    "reachable w m \<Longrightarrow> start_all_streams w m = (Inr s, m', w') \<Longrightarrow> reachable w' m'"
| stop_all_streams:
    "reachable w m \<Longrightarrow> stop_all_streams w m = (t, m', w') \<Longrightarrow> reachable w' m'"

subsection \<open>The processes of one stream\<close>



subsection \<open>The calls of one monitor pass\<close>




subsection \<open>Sample states\<close>

definition demo_config :: FFmpegConfig where
  "demo_config = \<lparr>sample_rate = 44100, audio_bitrate = ''128k'', segment_time = 2, list_size = 5\<rparr>"

definition demo_os :: os where
  "demo_os = \<lparr>which_ffmpeg = True, popen = (\<lambda>cmd. Spawned), next_proc = 0,
     argv = (\<lambda>p. []), returncode = (\<lambda>p. None), exit_on_terminate = (\<lambda>p. - 15),
     file_exists = (\<lambda>f. False), st_mtime = (\<lambda>f. None), clock = 100\<rparr>"

definition demo_manager :: NoiseStreamManager where
  "demo_manager = NoiseStreamManager_init ''/app/hls'' demo_config [''White'', ''pink'']"

definition white_runner :: NoiseFFmpegRunner where
  "white_runner = runner (create_stream_for_noise demo_manager ''white'')"

definition os_started :: os where
  "os_started = spawned demo_os (build_command white_runner)"

definition white_running :: StreamInfo where
  "white_running =
     (create_stream_for_noise demo_manager ''white'')
       \<lparr>runner := white_runner\<lparr>process := Some 0\<rparr>, state := RUNNING, started_at := Some 100\<rparr>"

definition os_manifest :: "real \<Rightarrow> os" where
  "os_manifest mtime =
     os_started\<lparr>file_exists := (\<lambda>f. f = ''/app/hls/noise_white/stream.m3u8''),
       st_mtime := (\<lambda>f. Some mtime)\<rparr>"

definition demo_registry :: NoiseStreamManager where
  "demo_registry = demo_manager\<lparr>streams := [(''noise_white'', 0)], store := [white_running]\<rparr>"

definition os_spawn_refused :: os where
  "os_spawn_refused = demo_os\<lparr>popen := (\<lambda>cmd. Raised OSError)\<rparr>"

definition demo_started :: "(py_exception + op_result) \<times> NoiseStreamManager \<times> os" where
  "demo_started = start_stream demo_os demo_manager ''noise_white''"

definition os_exited :: os where
  "os_exited = os_started\<lparr>returncode := (returncode os_started)(0 := Some 1)\<rparr>"

definition demo_stopped :: "op_result \<times> NoiseStreamManager \<times> os" where
  "demo_stopped = stop_stream os_exited demo_registry ''noise_white''"


















definition demo_halted :: "op_result \<times> NoiseStreamManager \<times> os" where
  "demo_halted = stop_stream os_started demo_registry ''noise_white''"

definition demo_halted_again :: "op_result \<times> NoiseStreamManager \<times> os" where
  "demo_halted_again =
     stop_stream (snd (snd demo_halted)) (fst (snd demo_halted)) ''noise_white''"






section \<open>Properties\<close>

subsection \<open>The sample states\<close>

lemma demo_manager_simps:
  "noise_types demo_manager = [''white'', ''pink'']" "streams demo_manager = []"
  "store demo_manager = []" "base_hls_dir demo_manager = ''/app/hls''"
  by (simp_all add: demo_manager_def NoiseStreamManager_init_def lower_def lower_char_def)

lemma demo_os_simps:
  "which_ffmpeg demo_os" "popen demo_os cmd = Spawned" "next_proc demo_os = 0"
  "returncode demo_os p = None" "clock demo_os = 100"
  by (simp_all add: demo_os_def)

lemma os_started_simps:
  "which_ffmpeg os_started" "popen os_started cmd = Spawned" "next_proc os_started = 1"
  "returncode os_started p = None" "clock os_started = 100"
  "file_exists os_started f = False"
  by (simp_all add: os_started_def spawned_def demo_os_def)

lemma os_exited_simps:
  "which_ffmpeg os_exited" "popen os_exited cmd = Spawned" "next_proc os_exited = 1"
  "returncode os_exited 0 = Some 1" "clock os_exited = 100"
  by (simp_all add: os_exited_def os_started_simps)

lemma white_running_simps:
  "state white_running = RUNNING" "process (runner white_running) = Some 0"
  "hls_path white_running = Some ''/app/hls/noise_white''"
  by (simp_all add: white_running_def create_stream_for_noise_def demo_manager_def
      NoiseStreamManager_init_def path_join_def Let_def)

lemma os_manifest_simps:
  "returncode (os_manifest t) 0 = None"
  "file_exists (os_manifest t) f = (f = ''/app/hls/noise_white/stream.m3u8'')"
  "st_mtime (os_manifest t) f = Some t" "clock (os_manifest t) = 100"
  by (simp_all add: os_manifest_def os_started_def spawned_def demo_os_def)

lemma demo_registry_simps:
  "streams demo_registry = [(''noise_white'', 0)]" "store demo_registry = [white_running]"
  "noise_types demo_registry = [''white'', ''pink'']"
  by (simp_all add: demo_registry_def demo_manager_simps)


subsection \<open>Health of one stream\<close>

lemma rs_running_is_running: "rs_running (runner_get_status w r) = is_running w r"
  by (simp add: runner_get_status_def is_running_def split: option.splits)

lemma manifest_probe_eq:
  "manifest_probe w (hls_path s) =
     (manifest_exists w s, manifest_exists w s \<and> age_within_window (manifest_age w s))"
  by (simp add: manifest_probe_def manifest_exists_def manifest_age_def age_within_window_def
      Let_def split: option.splits)

lemma h_status_eq:
  "h_status (StreamInfo_health_check w s) =
     (if state s = RUNNING \<and> is_running w (runner s) \<and> manifest_exists w s
          \<and> age_within_window (manifest_age w s) then ''healthy''
      else if state s = STOPPED then ''stopped''
      else if state s = STARTING then ''starting''
      else ''unhealthy'')"
  by (simp add: StreamInfo_health_check_def manifest_probe_eq rs_running_is_running Let_def)

text \<open>
  C1.  The status of a stream's health check is a function of its state, the liveness of
  its process, the existence of the manifest and the manifest's age: it is healthy
  exactly when the state is RUNNING, the process is live, the manifest exists and its age
  is strictly below 10; unhealthy when RUNNING and live with a stale or missing manifest;
  stopped when STOPPED; starting when STARTING; unhealthy when RUNNING without a live
  process.
\<close>

theorem health_classification:
  "(h_status (StreamInfo_health_check w s) = ''healthy'' \<longleftrightarrow>
      state s = RUNNING \<and> is_running w (runner s) \<and> manifest_exists w s
      \<and> (\<exists>age. manifest_age w s = Some age \<and> age < 10))
   \<and> (state s = RUNNING \<and> is_running w (runner s)
        \<and> (\<not> manifest_exists w s \<or> \<not> (\<exists>age. manifest_age w s = Some age \<and> age < 10))
      \<longrightarrow> h_status (StreamInfo_health_check w s) = ''unhealthy'')
   \<and> (state s = STOPPED \<longrightarrow> h_status (StreamInfo_health_check w s) = ''stopped'')
   \<and> (state s = STARTING \<longrightarrow> h_status (StreamInfo_health_check w s) = ''starting'')
   \<and> (state s = RUNNING \<and> \<not> is_running w (runner s)
      \<longrightarrow> h_status (StreamInfo_health_check w s) = ''unhealthy'')
   \<and> h_status (StreamInfo_health_check w s) =
       classify_spec (state s) (is_running w (runner s)) (manifest_exists w s) (manifest_age w s)"
proof -
  have w: "age_within_window (manifest_age w s) \<longleftrightarrow> (\<exists>age. manifest_age w s = Some age \<and> age < 10)"
    by (simp add: age_within_window_def split: option.splits)
  show ?thesis
    unfolding h_status_eq classify_spec_def w by auto
qed

theorem health_classification_witness:
  "h_status (StreamInfo_health_check (os_manifest 97) white_running) = ''healthy''
   \<and> h_status (StreamInfo_health_check (os_manifest 85) white_running) = ''unhealthy''
   \<and> h_status (StreamInfo_health_check os_started white_running) = ''unhealthy''
   \<and> h_status (StreamInfo_health_check os_started (white_running\<lparr>state := STOPPED\<rparr>)) = ''stopped''
   \<and> h_status (StreamInfo_health_check os_started (white_running\<lparr>state := STARTING\<rparr>)) = ''starting''
   \<and> h_status (StreamInfo_health_check os_exited white_running) = ''unhealthy''"
proof -
  have live: "is_running (os_manifest t) (runner white_running)"
    "is_running os_started (runner white_running)"
    "\<not> is_running os_exited (runner white_running)" for t
    by (simp_all add: is_running_def white_running_simps os_manifest_simps os_started_simps
        os_exited_simps)
  have ex: "manifest_exists (os_manifest t) white_running" "\<not> manifest_exists os_started white_running" for t
    by (simp_all add: manifest_exists_def white_running_simps os_manifest_simps
        os_started_simps path_join_def)
  have age: "manifest_age (os_manifest t) white_running = Some (100 - t)" for t
    by (simp add: manifest_age_def white_running_simps os_manifest_simps)
  have a: "h_status (StreamInfo_health_check (os_manifest 97) white_running) = ''healthy''"
    using health_classification [of "os_manifest 97" white_running] live ex age [of 97]
    by (simp add: white_running_simps)
  have b: "h_status (StreamInfo_health_check (os_manifest 85) white_running) = ''unhealthy''"
    using health_classification [of "os_manifest 85" white_running] live ex age [of 85]
    by (simp add: white_running_simps)
  have c: "h_status (StreamInfo_health_check os_started white_running) = ''unhealthy''"
    using health_classification [of os_started white_running] live ex
    by (simp add: white_running_simps)
  have d: "h_status (StreamInfo_health_check os_started (white_running\<lparr>state := STOPPED\<rparr>)) = ''stopped''"
    using health_classification [of os_started "white_running\<lparr>state := STOPPED\<rparr>"] by simp
  have e: "h_status (StreamInfo_health_check os_started (white_running\<lparr>state := STARTING\<rparr>)) = ''starting''"
    using health_classification [of os_started "white_running\<lparr>state := STARTING\<rparr>"] by simp
  have f: "h_status (StreamInfo_health_check os_exited white_running) = ''unhealthy''"
    using health_classification [of os_exited white_running] live
    by (simp add: white_running_simps)
  from a b c d e f show ?thesis by blast
qed

subsection \<open>Aggregate health\<close>







subsection \<open>Starting a runner\<close>

lemma start_expected_failures:
  "is_running w r \<Longrightarrow> start w r = (Inr False, r, w)"
  "\<not> which_ffmpeg w \<Longrightarrow> start w r = (Inr False, r, w)"
  "popen w (build_command r) = Raised FileNotFoundError \<Longrightarrow> start w r = (Inr False, r, w)"
  "popen w (build_command r) = Raised SubprocessError \<Longrightarrow> start w r = (Inr False, r, w)"
  by (simp_all add: start_def)

text \<open>
  C5.  \<^verbatim>\<open>start()\<close> is to return false, and never raise, when a process is already live,
  when the executable is not on the search path and on any spawn error of the operating
  system.  The first two and a missing executable do return false
  (\<open>start_expected_failures\<close>); but when \<^verbatim>\<open>Popen\<close> raises an \<^verbatim>\<open>OSError\<close> other than
  \<^verbatim>\<open>FileNotFoundError\<close>, neither \<^verbatim>\<open>except\<close> clause catches it and the exception reaches
  the caller.
\<close>

theorem start_lets_OSError_escape:
  "\<not> is_running w r \<Longrightarrow> which_ffmpeg w \<Longrightarrow> popen w (build_command r) = Raised OSError
   \<Longrightarrow> start w r = (Inl OSError, r, w)"
  by (simp add: start_def)

theorem start_lets_OSError_escape_witness:
  "\<not> is_running os_spawn_refused white_runner \<and> which_ffmpeg os_spawn_refused
   \<and> popen os_spawn_refused (build_command white_runner) = Raised OSError
   \<and> start os_spawn_refused white_runner = (Inl OSError, white_runner, os_spawn_refused)"
proof -
  have a: "\<not> is_running os_spawn_refused white_runner"
    by (simp add: is_running_def white_runner_def create_stream_for_noise_def
        NoiseFFmpegRunner_init_def Let_def)
  have b: "which_ffmpeg os_spawn_refused"
    by (simp add: os_spawn_refused_def demo_os_def)
  have c: "popen os_spawn_refused (build_command white_runner) = Raised OSError"
    by (simp add: os_spawn_refused_def)
  from a b c start_lets_OSError_escape [OF a b c] show ?thesis by simp
qed

subsection \<open>The registry's invariant is kept\<close>

lemma set_info_fields [simp]:
  "streams (set_info a f m) = streams m"
  "base_hls_dir (set_info a f m) = base_hls_dir m"
  "base_ffmpeg_config (set_info a f m) = base_ffmpeg_config m"
  "noise_types (set_info a f m) = noise_types m"
  "length (store (set_info a f m)) = length (store m)"
  by (simp_all add: set_info_def)

lemma store_set_info:
  "store (set_info a f m) ! b = (if b = a \<and> a < length (store m) then f (store m ! a) else store m ! b)"
  by (cases "a < length (store m)") (simp_all add: set_info_def list_update_beyond)

lemma set_info_set_info: "set_info a g (set_info a f m) = set_info a (g \<circ> f) m"
  by (cases "a < length (store m)") (simp_all add: set_info_def list_update_beyond)

lemma start_cases:
  obtains (spawned) "start w r = (Inr True, r\<lparr>process := Some (next_proc w), last_error := None\<rparr>,
                       spawned w (build_command r))" "\<not> is_running w r"
  | (failed) "start w r = (Inr False, r, w)"
  | (raised) e where "start w r = (Inl e, r, w)" "\<not> is_running w r"
proof (cases "is_running w r \<or> \<not> which_ffmpeg w")
  case True
  then have "start w r = (Inr False, r, w)" by (auto simp: start_def)
  then show ?thesis by (rule failed)
next
  case False
  show ?thesis
  proof (cases "popen w (build_command r)")
    case Spawned
    with False show ?thesis
      by (intro spawned) (simp_all add: start_def spawned_def Let_def)
  next
    case (Raised e)
    show ?thesis
    proof (cases "e = FileNotFoundError \<or> e = SubprocessError")
      case True
      with Raised False have "start w r = (Inr False, r, w)" by (auto simp: start_def)
      then show ?thesis by (rule failed)
    next
      case nc: False
      with Raised False show ?thesis
        by (intro raised [of e]) (simp_all add: start_def)
    qed
  qed
qed

lemma stop_cases:
  obtains (none) "process r = None" "stop w r = (False, r, w)"
  | (exited) p where "process r = Some p" "returncode w p \<noteq> None" "stop w r = (True, r\<lparr>process := None\<rparr>, w)"
  | (live) p where "process r = Some p" "returncode w p = None"
        "stop w r = (True, r\<lparr>process := None\<rparr>, terminated w p)"
  by (cases "process r") (auto simp: stop_def terminated_def)

lemma os_mono_refl [simp]: "os_mono w w"
  by (simp add: os_mono_def)

lemma os_mono_trans: "os_mono w w1 \<Longrightarrow> os_mono w1 w2 \<Longrightarrow> os_mono w w2"
  by (auto simp: os_mono_def)

lemma os_mono_spawned [simp]: "os_mono w (spawned w cmd)"
  by (simp add: os_mono_def spawned_def)

lemma os_mono_terminated [simp]: "os_mono w (terminated w p)"
  by (simp add: os_mono_def terminated_def)

lemma is_running_mono:
  "os_mono w w1 \<Longrightarrow> process r = Some p \<Longrightarrow> p < next_proc w \<Longrightarrow> is_running w1 r \<Longrightarrow> is_running w r"
  by (simp add: os_mono_def is_running_def)

lemma info_ok_mono: "info_ok w base sid i \<Longrightarrow> os_mono w w1 \<Longrightarrow> info_ok w1 base sid i"
  by (auto simp: info_ok_def os_mono_def is_running_def split: option.splits)

lemma heldI: "(sid, a) \<in> set (streams m) \<Longrightarrow> process (runner (store m ! a)) = Some p \<Longrightarrow> held m p"
  by (auto simp: held_def list_ex_iff)

lemma heldE: "held m p \<Longrightarrow> (\<And>sid a. (sid, a) \<in> set (streams m) \<Longrightarrow> process (runner (store m ! a)) = Some p \<Longrightarrow> thesis) \<Longrightarrow> thesis"
  by (auto simp: held_def list_ex_iff)

lemma registry_invD:
  assumes "registry_inv w m"
  shows "(sid, a) \<in> set (streams m) \<Longrightarrow> a < length (store m)"
    and "(sid, a) \<in> set (streams m) \<Longrightarrow> info_ok w (base_hls_dir m) sid (store m ! a)"
    and "distinct (map fst (streams m))"
    and "distinct (map snd (streams m))"
    and "p < next_proc w \<Longrightarrow> returncode w p = None \<Longrightarrow> held m p"
  using assms by (auto simp: registry_inv_def list_all_iff)

lemma registry_invI:
  assumes "\<And>sid a. (sid, a) \<in> set (streams m) \<Longrightarrow> a < length (store m) \<and> info_ok w (base_hls_dir m) sid (store m ! a)"
    and "distinct (map fst (streams m))"
    and "distinct (map snd (streams m))"
    and "\<And>p. p < next_proc w \<Longrightarrow> returncode w p = None \<Longrightarrow> held m p"
  shows "registry_inv w m"
  using assms by (auto simp: registry_inv_def list_all_iff)

lemma distinct_snd_unique:
  "distinct (map snd xs) \<Longrightarrow> (k, a) \<in> set xs \<Longrightarrow> (k', a) \<in> set xs \<Longrightarrow> k = k'"
  by (induction xs) (auto simp: rev_image_eqI)

lemma registry_inv_update:
  assumes inv: "registry_inv w m" and mem: "(sid, a) \<in> set (streams m)" and mono: "os_mono w w1"
    and ok: "info_ok w1 (base_hls_dir m) sid (f (store m ! a))"
    and live: "\<And>p. p < next_proc w1 \<Longrightarrow> returncode w1 p = None \<Longrightarrow>
        process (runner (f (store m ! a))) = Some p
        \<or> (p < next_proc w \<and> returncode w p = None \<and> process (runner (store m ! a)) \<noteq> Some p)"
  shows "registry_inv w1 (set_info a f m)"
proof (rule registry_invI)
  note D = registry_invD [OF inv]
  have a: "a < length (store m)" using D(1) mem by blast
  show "b < length (store (set_info a f m)) \<and>
        info_ok w1 (base_hls_dir (set_info a f m)) k (store (set_info a f m) ! b)"
    if "(k, b) \<in> set (streams (set_info a f m))" for k b
  proof (cases "b = a")
    case True
    with that mem D(4) have "k = sid" by (auto dest: distinct_snd_unique)
    with True a ok show ?thesis by (simp add: store_set_info)
  next
    case False
    from that have kb: "(k, b) \<in> set (streams m)" by simp
    from D(2) [OF kb] mono have "info_ok w1 (base_hls_dir m) k (store m ! b)"
      by (rule info_ok_mono)
    with False D(1) [OF kb] show ?thesis by (simp add: store_set_info)
  qed
  show "distinct (map fst (streams (set_info a f m)))" using D(3) by simp
  show "distinct (map snd (streams (set_info a f m)))" using D(4) by simp
  show "held (set_info a f m) p" if "p < next_proc w1" "returncode w1 p = None" for p
  proof -
    from live [OF that] show ?thesis
    proof
      assume "process (runner (f (store m ! a))) = Some p"
      with mem a show ?thesis by (auto intro!: heldI [of sid a] simp: store_set_info)
    next
      assume h: "p < next_proc w \<and> returncode w p = None \<and> process (runner (store m ! a)) \<noteq> Some p"
      then have "held m p" using D(5) by blast
      then obtain k b where kb: "(k, b) \<in> set (streams m)" "process (runner (store m ! b)) = Some p"
        by (rule heldE)
      with h have "b \<noteq> a" by auto
      with kb show ?thesis by (auto intro!: heldI [of k b] simp: store_set_info)
    qed
  qed
qed

lemma mem_streams_iff:
  "distinct (map fst al) \<Longrightarrow> (k, a) \<in> set al \<longleftrightarrow> map_of al k = Some a"
  by simp

lemma set_alist_update:
  assumes "distinct (map fst al)"
  shows "(k', a') \<in> set (AList.update k v al) \<longleftrightarrow> (if k' = k then a' = v else (k', a') \<in> set al)"
proof -
  have d: "distinct (map fst (AList.update k v al))" using assms by (rule distinct_update)
  show ?thesis
    by (auto simp: mem_streams_iff [OF d] mem_streams_iff [OF assms] update_conv')
qed

lemma snd_set_alist_update: "snd ` set (AList.update k v al) \<subseteq> insert v (snd ` set al)"
  by (induction al) auto

lemma distinct_snd_alist_update:
  "distinct (map snd al) \<Longrightarrow> v \<notin> snd ` set al \<Longrightarrow> distinct (map snd (AList.update k v al))"
proof (induction al)
  case Nil
  then show ?case by simp
next
  case (Cons x al)
  have "snd x \<notin> snd ` set (AList.update k v al)" if "fst x \<noteq> k"
    using snd_set_alist_update [of k v al] Cons.prems by auto
  with Cons show ?case by auto
qed

lemma registry_inv_insert:
  assumes inv: "registry_inv w m" and mono: "os_mono w w1"
    and ok: "info_ok w1 (base_hls_dir m) sid i"
    and idle: "\<And>b. map_of (streams m) sid = Some b \<Longrightarrow> \<not> is_running w (runner (store m ! b))"
    and live: "\<And>p. p < next_proc w1 \<Longrightarrow> returncode w1 p = None \<Longrightarrow>
        process (runner i) = Some p \<or> (p < next_proc w \<and> returncode w p = None)"
  shows "registry_inv w1
           (m\<lparr>store := store m @ [i], streams := AList.update sid (length (store m)) (streams m)\<rparr>)"
    (is "registry_inv w1 ?m'")
proof (rule registry_invI)
  note D = registry_invD [OF inv]
  have mem': "(k, b) \<in> set (streams ?m') \<longleftrightarrow>
      (if k = sid then b = length (store m) else (k, b) \<in> set (streams m))" for k b
    using set_alist_update [OF D(3)] by simp
  show "b < length (store ?m') \<and> info_ok w1 (base_hls_dir ?m') k (store ?m' ! b)"
    if "(k, b) \<in> set (streams ?m')" for k b
  proof (cases "k = sid")
    case True
    with that mem' have "b = length (store m)" by simp
    with True ok show ?thesis by simp
  next
    case False
    with that mem' have kb: "(k, b) \<in> set (streams m)" by simp
    from D(2) [OF kb] mono have "info_ok w1 (base_hls_dir m) k (store m ! b)"
      by (rule info_ok_mono)
    with D(1) [OF kb] show ?thesis by (simp add: nth_append)
  qed
  show "distinct (map fst (streams ?m'))" using D(3) by (simp add: distinct_update)
  have "length (store m) \<notin> snd ` set (streams m)" using D(1) by force
  then show "distinct (map snd (streams ?m'))" using D(4) by (simp add: distinct_snd_alist_update)
  show "held ?m' p" if "p < next_proc w1" "returncode w1 p = None" for p
  proof -
    from live [OF that] show ?thesis
    proof
      assume "process (runner i) = Some p"
      moreover have "(sid, length (store m)) \<in> set (streams ?m')" using mem' by simp
      ultimately show ?thesis by (auto intro!: heldI [of sid "length (store m)"])
    next
      assume h: "p < next_proc w \<and> returncode w p = None"
      then have "held m p" using D(5) by blast
      then obtain k b where kb: "(k, b) \<in> set (streams m)" "process (runner (store m ! b)) = Some p"
        by (rule heldE)
      have "k \<noteq> sid"
      proof
        assume "k = sid"
        with kb D(3) have "map_of (streams m) sid = Some b" by simp
        from idle [OF this] kb h show False by (simp add: is_running_def)
      qed
      with kb mem' have "(k, b) \<in> set (streams ?m')" by simp
      moreover have "store ?m' ! b = store m ! b" using D(1) [OF kb(1)] by (simp add: nth_append)
      ultimately show ?thesis using kb by (auto intro!: heldI [of k b])
    qed
  qed
qed

lemma build_command_cong [simp]:
  "build_command (r\<lparr>process := p\<rparr>) = build_command r"
  "build_command (r\<lparr>last_error := e\<rparr>) = build_command r"
  by (simp_all add: build_command_def)

lemma is_running_spawned [simp]:
  "is_running (spawned w cmd) (r\<lparr>process := Some (next_proc w), last_error := e\<rparr>)"
  by (simp add: is_running_def spawned_def)

lemma start_record_inv:
  assumes inv: "registry_inv w m" and mem: "(sid, a) \<in> set (streams m)"
    and run: "start_record w m sid a = (Inr r, m', w')"
  shows "registry_inv w' m' \<and> os_mono w w' \<and> streams m' = streams m
         \<and> length (store m') = length (store m) \<and> resolved w' (store m' ! a)"
proof -
  note D = registry_invD [OF inv]
  have a: "a < length (store m)" using D(1) mem by blast
  note ok = D(2) [OF mem]
  let ?i = "store m ! a"
  show ?thesis
  proof (cases "is_running w (runner ?i)")
    case True
    with run have "m' = m" "w' = w" by (simp_all add: start_record_def)
    moreover from True ok have "state ?i = RUNNING" by (simp add: info_ok_def)
    ultimately show ?thesis using inv True by (simp add: resolved_def)
  next
    case False
    have r1: "runner (store (set_info a (\<lambda>i. i\<lparr>state := STARTING\<rparr>) m) ! a) = runner ?i"
      using a by (simp add: store_set_info)
    show ?thesis
    proof (cases w "runner ?i" rule: start_cases)
      case spawned
      let ?f = "(\<lambda>i. i\<lparr>runner := runner ?i\<lparr>process := Some (next_proc w), last_error := None\<rparr>,
                    state := RUNNING, started_at := Some (clock (spawned w (build_command (runner ?i)))),
                    error_message := None\<rparr>) \<circ> (\<lambda>i. i\<lparr>state := STARTING\<rparr>)"
      from run False spawned have m': "m' = set_info a ?f m"
        and w': "w' = spawned w (build_command (runner ?i))"
        by (auto simp: start_record_def Let_def r1 set_info_set_info)
      have "registry_inv w' (set_info a ?f m)"
      proof (rule registry_inv_update [OF inv mem])
        show "os_mono w w'" by (simp add: w')
        show "info_ok w' (base_hls_dir m) sid (?f ?i)"
          using ok by (auto simp: info_ok_def w' spawned_def split: option.splits)
        show "process (runner (?f ?i)) = Some p \<or>
              p < next_proc w \<and> returncode w p = None \<and> process (runner ?i) \<noteq> Some p"
          if "p < next_proc w'" "returncode w' p = None" for p
          using that False by (auto simp: w' spawned_def is_running_def less_Suc_eq split: if_splits)
      qed
      moreover have "resolved w' (store (set_info a ?f m) ! a)"
        using a by (simp add: store_set_info resolved_def w')
      ultimately show ?thesis using m' w' by simp
    next
      case failed
      let ?f = "(\<lambda>i. i\<lparr>runner := runner ?i, state := ERROR,
                    error_message := Some ''Failed to start FFmpeg process''\<rparr>)
                \<circ> (\<lambda>i. i\<lparr>state := STARTING\<rparr>)"
      from run False failed have m': "m' = set_info a ?f m" and w': "w' = w"
        by (auto simp: start_record_def Let_def r1 set_info_set_info)
      have "registry_inv w' (set_info a ?f m)"
      proof (rule registry_inv_update [OF inv mem])
        show "os_mono w w'" by (simp add: w')
        show "info_ok w' (base_hls_dir m) sid (?f ?i)"
          using ok False by (simp add: info_ok_def w' split: option.splits)
        show "process (runner (?f ?i)) = Some p \<or>
              p < next_proc w \<and> returncode w p = None \<and> process (runner ?i) \<noteq> Some p"
          if "p < next_proc w'" "returncode w' p = None" for p
          using that by (auto simp: w')
      qed
      moreover have "resolved w' (store (set_info a ?f m) ! a)"
        using a by (simp add: store_set_info resolved_def w')
      ultimately show ?thesis using m' w' by simp
    next
      case (raised e)
      with run False show ?thesis by (simp add: start_record_def Let_def r1)
    qed
  qed
qed

lemma startswith_removeprefix: "startswith sid p \<Longrightarrow> p @ removeprefix sid p = sid"
  by (metis append_take_drop_id removeprefix_def startswith_def)

lemma info_ok_created:
  "info_ok w (base_hls_dir m) (''noise_'' @ noise) (create_stream_for_noise m noise)"
  by (simp add: info_ok_def create_stream_for_noise_def NoiseFFmpegRunner_init_def Let_def
      is_running_def)

lemma created_fields:
  "stream_id (create_stream_for_noise m noise) = ''noise_'' @ noise"
  "noise_type (create_stream_for_noise m noise) = noise"
  "state (create_stream_for_noise m noise) = STOPPED"
  "process (runner (create_stream_for_noise m noise)) = None"
  "hls_path (create_stream_for_noise m noise) = Some (path_join (base_hls_dir m) (''noise_'' @ noise))"
  by (simp_all add: create_stream_for_noise_def NoiseFFmpegRunner_init_def Let_def)

lemma start_stream_inv:
  assumes inv: "registry_inv w m" and run: "start_stream w m sid = (Inr r, m', w')"
  shows "registry_inv w' m' \<and> os_mono w w'
         \<and> (map_of (streams m) sid \<noteq> None
              \<or> startswith sid ''noise_'' \<and> removeprefix sid ''noise_'' \<in> set (noise_types m)
            \<longrightarrow> resolved_at w' m' sid)"
proof (cases "map_of (streams m) sid")
  case (Some a)
  then have mem: "(sid, a) \<in> set (streams m)" by (rule map_of_SomeD)
  from run Some have "start_record w m sid a = (Inr r, m', w')" by (simp add: start_stream_def)
  from start_record_inv [OF inv mem this] Some show ?thesis
    by (simp add: resolved_at_def)
next
  case None
  show ?thesis
  proof (cases "startswith sid ''noise_'' \<and> removeprefix sid ''noise_'' \<in> set (noise_types m)")
    case False
    with run None have "m' = m" "w' = w" by (auto simp: start_stream_def Let_def split: if_splits)
    with inv None False show ?thesis by auto
  next
    case True
    let ?noise = "removeprefix sid ''noise_''"
    let ?a = "length (store m)"
    let ?m2 = "m\<lparr>store := store m @ [create_stream_for_noise m ?noise],
                 streams := AList.update sid ?a (streams m)\<rparr>"
    have sid: "''noise_'' @ ?noise = sid"
      using True startswith_removeprefix [of sid "''noise_''"] by blast
    from run None True have rec: "start_record w ?m2 sid ?a = (Inr r, m', w')"
      by (simp add: start_stream_def Let_def new_info_def)
    have inv2: "registry_inv w ?m2"
    proof (rule registry_inv_insert [OF inv])
      show "os_mono w w" by simp
      show "info_ok w (base_hls_dir m) sid (create_stream_for_noise m ?noise)"
        using info_ok_created [of w m ?noise] by (simp only: sid)
    qed (simp_all add: None)
    have mem: "(sid, ?a) \<in> set (streams ?m2)"
      using set_alist_update [OF registry_invD(3) [OF inv], of sid ?a sid ?a] by simp
    from start_record_inv [OF inv2 mem rec] show ?thesis
      by (simp add: resolved_at_def update_conv')
  qed
qed

lemma stop_stream_inv:
  assumes inv: "registry_inv w m" and run: "stop_stream w m sid = (r, m', w')"
  shows "registry_inv w' m' \<and> os_mono w w' \<and> streams m' = streams m"
proof (cases "map_of (streams m) sid")
  case None
  with run inv show ?thesis by (simp add: stop_stream_def)
next
  case (Some a)
  then have mem: "(sid, a) \<in> set (streams m)" by (rule map_of_SomeD)
  note D = registry_invD [OF inv]
  note ok = D(2) [OF mem]
  let ?i = "store m ! a"
  show ?thesis
  proof (cases "is_running w (runner ?i)")
    case False
    with run Some inv show ?thesis by (simp add: stop_stream_def)
  next
    case True
    then obtain p where p: "process (runner ?i) = Some p" "returncode w p = None"
      by (auto simp: is_running_def split: option.splits)
    then have st: "stop w (runner ?i) = (True, runner ?i\<lparr>process := None\<rparr>, terminated w p)"
      by (simp add: stop_def terminated_def)
    let ?f = "\<lambda>i. i\<lparr>runner := runner ?i\<lparr>process := None\<rparr>, state := STOPPED, started_at := None\<rparr>"
    from run Some True st have m': "m' = set_info a ?f m" and w': "w' = terminated w p"
      by (auto simp: stop_stream_def)
    have "registry_inv w' (set_info a ?f m)"
    proof (rule registry_inv_update [OF inv mem])
      show "os_mono w w'" by (simp add: w')
      show "info_ok w' (base_hls_dir m) sid (?f ?i)"
        using ok by (simp add: info_ok_def is_running_def)
      show "process (runner (?f ?i)) = Some q \<or>
            q < next_proc w \<and> returncode w q = None \<and> process (runner ?i) \<noteq> Some q"
        if "q < next_proc w'" "returncode w' q = None" for q
        using that p by (auto simp: w' terminated_def split: if_splits)
    qed
    then show ?thesis using m' w' by simp
  qed
qed

subsection \<open>\<^verbatim>\<open>start_all_streams\<close>: the loop\<close>

lemma frame_refl [simp]: "frame m m"
  by (simp add: frame_def)

lemma frame_trans: "frame m m1 \<Longrightarrow> frame m1 m2 \<Longrightarrow> frame m m2"
  by (auto simp: frame_def)

lemma quiet_refl [simp]: "quiet w w"
  by (simp add: quiet_def)

lemma quiet_trans: "quiet w w1 \<Longrightarrow> quiet w1 w2 \<Longrightarrow> quiet w w2"
  by (auto simp: quiet_def os_mono_def)

lemma quiet_spawned [simp]: "quiet w (spawned w cmd)"
  by (simp add: quiet_def) (simp add: spawned_def)

lemma start_all_step_live:
  assumes "live_at w m (''noise_'' @ noise)"
  shows "\<exists>e. start_all_step w m noise (res, sc, fc) = (Inr (res @ [e], Suc sc, fc), m, w)
             \<and> entry noise ''already_running'' e"
  using assms by (simp add: start_all_step_def live_at_def entry_def)

lemma start_all_step_idle:
  assumes inv: "registry_inv w m" and idle: "\<not> live_at w m (''noise_'' @ noise)"
    and run: "start_all_step w m noise (res, sc, fc) = (Inr acc', m', w')"
  shows "\<exists>e i. m' = m\<lparr>store := store m @ [i],
                        streams := AList.update (''noise_'' @ noise) (length (store m)) (streams m)\<rparr>
          \<and> registry_inv w' m' \<and> quiet w w' \<and> resolved w' i
          \<and> (acc' = (res @ [e], Suc sc, fc) \<and> entry noise ''started'' e
                \<and> next_proc w' = Suc (next_proc w)
              \<or> acc' = (res @ [e], sc, Suc fc) \<and> entry noise ''failed'' e \<and> w' = w)"
proof -
  let ?sid = "''noise_'' @ noise"
  let ?i0 = "create_stream_for_noise m noise"
  let ?a = "length (store m)"
  have c: "(case map_of (streams m) ?sid of None \<Rightarrow> False
            | Some existing \<Rightarrow> is_running w (runner (store m ! existing))) = False"
    using idle by (simp add: live_at_def)
  have idle': "\<not> is_running w (runner (store m ! b))" if "map_of (streams m) ?sid = Some b" for b
    using idle that by (simp add: live_at_def)
  have ok0: "info_ok w (base_hls_dir m) ?sid ?i0" by (rule info_ok_created)
  show ?thesis
  proof (cases w "runner ?i0" rule: start_cases)
    case spawned
    let ?w1 = "spawned w (build_command (runner ?i0))"
    let ?i = "?i0\<lparr>runner := runner ?i0\<lparr>process := Some (next_proc w), last_error := None\<rparr>,
                 state := RUNNING, started_at := Some (clock ?w1), error_message := None\<rparr>"
    let ?m' = "m\<lparr>store := store m @ [?i], streams := AList.update ?sid ?a (streams m)\<rparr>"
    from run spawned have r: "m' = ?m'" "w' = ?w1"
      "acc' = (res @ [\<lparr>e_stream_id = ?sid, e_status = ''started'', e_noise = noise,
                 e_stream_url = Some (''/hls/'' @ ?sid @ ''/stream.m3u8''), e_error = None\<rparr>],
               Suc sc, fc)"
      unfolding start_all_step_def
      by (simp_all only: c prod.case Let_def new_info_def set_info_def if_False)
         (auto simp: nth_append)
    have "registry_inv ?w1 ?m'"
    proof (rule registry_inv_insert [OF inv _ _ idle'])
      show "os_mono w ?w1" by simp
      show "info_ok ?w1 (base_hls_dir m) ?sid ?i"
        using ok0 by (auto simp: info_ok_def spawned_def created_fields)
      show "process (runner ?i) = Some p \<or> p < next_proc w \<and> returncode w p = None"
        if "p < next_proc ?w1" "returncode ?w1 p = None" for p
        using that by (auto simp: spawned_def less_Suc_eq split: if_splits)
    qed
    moreover have "resolved ?w1 ?i" by (simp add: resolved_def)
    moreover have "next_proc ?w1 = Suc (next_proc w)" by (simp add: spawned_def)
    ultimately show ?thesis using r by (auto simp: entry_def)
  next
    case failed
    let ?i = "?i0\<lparr>state := ERROR, error_message := Some ''Failed to start FFmpeg process''\<rparr>"
    let ?m' = "m\<lparr>store := store m @ [?i], streams := AList.update ?sid ?a (streams m)\<rparr>"
    from run failed have r: "m' = ?m'" "w' = w"
      "acc' = (res @ [\<lparr>e_stream_id = ?sid, e_status = ''failed'', e_noise = noise,
                 e_stream_url = None, e_error = Some ''Failed to start FFmpeg process''\<rparr>],
               sc, Suc fc)"
      unfolding start_all_step_def
      by (simp_all only: c prod.case Let_def new_info_def set_info_def if_False)
         (auto simp: nth_append)
    have "registry_inv w ?m'"
    proof (rule registry_inv_insert [OF inv _ _ idle'])
      show "os_mono w w" by simp
      show "info_ok w (base_hls_dir m) ?sid ?i"
        using ok0 by (auto simp: info_ok_def created_fields is_running_def)
    qed auto
    moreover have "resolved w ?i" by (simp add: resolved_def)
    ultimately show ?thesis using r by (auto simp: entry_def)
  next
    case (raised e)
    with run show ?thesis
      unfolding start_all_step_def
      by (simp only: c prod.case Let_def new_info_def set_info_def if_False)
         (auto simp: nth_append)
  qed
qed



lemma live_at_resolved_at: "registry_inv w m \<Longrightarrow> live_at w m k \<Longrightarrow> resolved_at w m k"
  by (auto simp: live_at_def resolved_at_def resolved_def info_ok_def
      dest!: map_of_SomeD registry_invD(2) split: option.splits)

lemma start_all_step_summary:
  assumes inv: "registry_inv w m"
    and run: "start_all_step w m noise acc = (Inr acc', m', w')"
  shows "registry_inv w' m'" "quiet w w'" "frame m m'"
    "\<And>k. k \<noteq> ''noise_'' @ noise \<Longrightarrow> map_of (streams m') k = map_of (streams m) k"
    "resolved_at w' m' (''noise_'' @ noise)"
    "step_outcome w m noise acc acc' m' w'"
proof -
  obtain res sc fc where acc: "acc = (res, sc, fc)" by (cases acc)
  obtain res' sc' fc' where acc': "acc' = (res', sc', fc')" by (cases acc')
  let ?sid = "''noise_'' @ noise"
  have "registry_inv w' m' \<and> quiet w w' \<and> frame m m'
        \<and> (\<forall>k. k \<noteq> ?sid \<longrightarrow> map_of (streams m') k = map_of (streams m) k)
        \<and> resolved_at w' m' ?sid \<and> step_outcome w m noise acc acc' m' w'"
  proof (cases "live_at w m ?sid")
    case True
    from start_all_step_live [OF True, of res sc fc] run acc acc'
    obtain e where "res' = res @ [e]" "sc' = Suc sc" "fc' = fc" "m' = m" "w' = w"
      "entry noise ''already_running'' e" by auto
    with inv True live_at_resolved_at [OF inv True] acc acc' show ?thesis
      by (simp add: step_outcome_def)
  next
    case False
    from start_all_step_idle [OF inv False run [unfolded acc]]
    obtain e i where m': "m' = m\<lparr>store := store m @ [i],
                        streams := AList.update ?sid (length (store m)) (streams m)\<rparr>"
      and i: "registry_inv w' m'" "quiet w w'" "resolved w' i"
      and o: "acc' = (res @ [e], Suc sc, fc) \<and> entry noise ''started'' e
                \<and> next_proc w' = Suc (next_proc w)
              \<or> acc' = (res @ [e], sc, Suc fc) \<and> entry noise ''failed'' e \<and> w' = w"
      by blast
    have "frame m m'" by (simp add: m' frame_def nth_append)
    moreover have "map_of (streams m') k = map_of (streams m) k" if "k \<noteq> ?sid" for k
      using that by (simp add: m' update_conv')
    moreover have b: "map_of (streams m') ?sid = Some (length (store m))"
      by (simp add: m' update_conv')
    moreover have "resolved_at w' m' ?sid"
      using i(3) b by (simp add: resolved_at_def) (simp add: m')
    moreover have "step_outcome w m noise acc acc' m' w'"
      using False o b acc acc' by (auto simp: step_outcome_def)
    ultimately show ?thesis using i by blast
  qed
  then show "registry_inv w' m'" "quiet w w'" "frame m m'"
    "\<And>k. k \<noteq> ''noise_'' @ noise \<Longrightarrow> map_of (streams m') k = map_of (streams m) k"
    "resolved_at w' m' (''noise_'' @ noise)"
    "step_outcome w m noise acc acc' m' w'" by blast+
qed

lemma start_all_loop_inv:
  assumes "registry_inv w m" "start_all_loop w m ns acc = (Inr acc', m', w')"
  shows "registry_inv w' m' \<and> quiet w w' \<and> frame m m'
         \<and> (\<forall>k. k \<notin> (\<lambda>n. ''noise_'' @ n) ` set ns \<longrightarrow> map_of (streams m') k = map_of (streams m) k)"
  using assms
proof (induction ns arbitrary: w m acc)
  case Nil
  then show ?case by simp
next
  case (Cons n ns)
  from Cons.prems(2) obtain acc1 m1 w1 where
    step: "start_all_step w m n acc = (Inr acc1, m1, w1)"
    and rest: "start_all_loop w1 m1 ns acc1 = (Inr acc', m', w')"
    by (auto split: prod.splits sum.splits)
  note S = start_all_step_summary [OF Cons.prems(1) step]
  from Cons.IH [OF S(1) rest] S(2,3,4) show ?case
    by (auto intro: quiet_trans frame_trans)
qed

lemma count_entries_simps [simp]:
  "count_entries st [] = 0"
  "count_entries st (e # es) = (if e_status e = st then Suc (count_entries st es) else count_entries st es)"
  by (simp_all add: count_entries_def)



lemma sid_inj: "''noise_'' @ n = ''noise_'' @ n' \<longleftrightarrow> n = n'"
  by simp




subsection \<open>Reachable states satisfy the invariant\<close>

lemma stop_all_step_inv:
  assumes inv: "registry_inv w m" and mem: "(sid, a) \<in> set (streams m)"
    and run: "stop_all_step w m (sid, a) acc = (acc', m', w')"
  shows "registry_inv w' m' \<and> streams m' = streams m"
proof -
  obtain res n where acc: "acc = (res, n)" by (cases acc)
  note D = registry_invD [OF inv]
  note ok = D(2) [OF mem]
  let ?i = "store m ! a"
  show ?thesis
  proof (cases "is_running w (runner ?i)")
    case False
    with run inv acc show ?thesis by (simp add: stop_all_step_def)
  next
    case True
    then obtain p where p: "process (runner ?i) = Some p" "returncode w p = None"
      by (auto simp: is_running_def split: option.splits)
    then have st: "stop w (runner ?i) = (True, runner ?i\<lparr>process := None\<rparr>, terminated w p)"
      by (simp add: stop_def terminated_def)
    let ?f = "\<lambda>i. i\<lparr>runner := runner ?i\<lparr>process := None\<rparr>, state := STOPPED, started_at := None\<rparr>"
    from run acc True st have m': "m' = set_info a ?f m" and w': "w' = terminated w p"
      by (auto simp: stop_all_step_def)
    have "registry_inv w' (set_info a ?f m)"
    proof (rule registry_inv_update [OF inv mem])
      show "os_mono w w'" by (simp add: w')
      show "info_ok w' (base_hls_dir m) sid (?f ?i)"
        using ok by (simp add: info_ok_def is_running_def)
      show "process (runner (?f ?i)) = Some q \<or>
            q < next_proc w \<and> returncode w q = None \<and> process (runner ?i) \<noteq> Some q"
        if "q < next_proc w'" "returncode w' q = None" for q
        using that p by (auto simp: w' terminated_def split: if_splits)
    qed
    then show ?thesis using m' by simp
  qed
qed

lemma stop_all_loop_inv:
  assumes "registry_inv w m" "set items \<subseteq> set (streams m)"
    "stop_all_loop w m items acc = (acc', m', w')"
  shows "registry_inv w' m' \<and> streams m' = streams m"
  using assms
proof (induction items arbitrary: w m acc)
  case Nil
  then show ?case by simp
next
  case (Cons item items)
  obtain sid a where item: "item = (sid, a)" by (cases item)
  from Cons.prems(3) obtain acc1 m1 w1 where
    step: "stop_all_step w m (sid, a) acc = (acc1, m1, w1)"
    and rest: "stop_all_loop w1 m1 items acc1 = (acc', m', w')"
    by (auto simp: item split: prod.splits)
  from Cons.prems(2) item have mem: "(sid, a) \<in> set (streams m)" by simp
  from stop_all_step_inv [OF Cons.prems(1) mem step]
  have 1: "registry_inv w1 m1" "streams m1 = streams m" by simp_all
  with Cons.prems(2) have "set items \<subseteq> set (streams m1)" by simp
  from Cons.IH [OF 1(1) this rest] 1(2) show ?case by simp
qed

lemma stop_all_streams_inv:
  assumes "registry_inv w m" "stop_all_streams w m = (t, m', w')"
  shows "registry_inv w' m'"
proof -
  from assms(2) obtain acc' where "stop_all_loop w m (streams m) ([], 0) = (acc', m', w')"
    by (auto simp: stop_all_streams_def split: prod.splits)
  from stop_all_loop_inv [OF assms(1) _ this] show ?thesis by simp
qed

lemma start_all_streams_loop:
  assumes "start_all_streams w m = (Inr s, m', w')"
  shows "start_all_loop w m (noise_types m) ([], 0, 0)
           = (Inr (sa_streams s, started s, failed s), m', w')
         \<and> total_streams s = length (noise_types m') \<and> sa_success s = (started s > 0)"
  using assms by (auto simp: start_all_streams_def split: prod.splits sum.splits)

lemma start_all_streams_inv:
  assumes "registry_inv w m" "start_all_streams w m = (Inr s, m', w')"
  shows "registry_inv w' m'"
  using start_all_loop_inv [OF assms(1)] start_all_streams_loop [OF assms(2)] by blast

lemma registry_inv_init: "next_proc w = 0 \<Longrightarrow> registry_inv w (NoiseStreamManager_init dir cfg types)"
  by (simp add: registry_inv_def NoiseStreamManager_init_def)

lemma registry_inv_env:
  assumes inv: "registry_inv w m" and env: "env_step w w'"
  shows "registry_inv w' m"
proof (rule registry_invI)
  note D = registry_invD [OF inv]
  from env have mono: "os_mono w w'" and np: "next_proc w' = next_proc w"
    by (simp_all add: env_step_def)
  show "a < length (store m) \<and> info_ok w' (base_hls_dir m) sid (store m ! a)"
    if "(sid, a) \<in> set (streams m)" for sid a
    using D(1,2) [OF that] mono by (auto intro: info_ok_mono)
  show "distinct (map fst (streams m))" "distinct (map snd (streams m))" by (rule D)+
  show "held m p" if "p < next_proc w'" "returncode w' p = None" for p
    using that mono np D(5) [of p] by (auto simp: os_mono_def)
qed

lemma reachable_inv: "reachable w m \<Longrightarrow> registry_inv w m"
proof (induction rule: reachable.induct)
  case (init w dir cfg types)
  then show ?case by (rule registry_inv_init)
next
  case (env w m w')
  then show ?case by (blast intro: registry_inv_env)
next
  case (start_stream w m sid r m' w')
  from start_stream_inv [OF start_stream.IH start_stream.hyps(2)] show ?case by simp
next
  case (stop_stream w m sid r m' w')
  from stop_stream_inv [OF stop_stream.IH stop_stream.hyps(2)] show ?case by simp
next
  case (start_all_streams w m s m' w')
  then show ?case by (blast intro: start_all_streams_inv)
next
  case (stop_all_streams w m t m' w')
  then show ?case by (blast intro: stop_all_streams_inv)
qed

lemma demo_started_eq:
  "demo_started =
     (Inr \<lparr>success = True, message = Some ''Stream started'', error = None,
           stream_url = Some ''/hls/noise_white/stream.m3u8''\<rparr>, demo_registry, os_started)"
  by (simp add: demo_started_def start_stream_def demo_manager_simps startswith_def
      removeprefix_def new_info_def Let_def start_record_def set_info_def is_running_def
      start_def demo_os_simps os_started_def spawned_def ok_result_def demo_registry_def
      white_running_def white_runner_def create_stream_for_noise_def NoiseFFmpegRunner_init_def)

lemma demo_stopped_eq:
  "demo_stopped = (ok_result ''Stream was not running'', demo_registry, os_exited)"
  by (simp add: demo_stopped_def stop_stream_def demo_registry_simps is_running_def
      white_running_simps os_exited_def)

lemma env_step_exited: "env_step os_started os_exited"
  by (simp add: env_step_def os_mono_def os_exited_def)

lemma reachable_demo_manager: "reachable demo_os demo_manager"
  unfolding demo_manager_def by (rule reachable.init) (simp add: demo_os_simps)

lemma reachable_demo_registry: "reachable os_started demo_registry"
  using reachable_demo_manager demo_started_eq [unfolded demo_started_def]
  by (rule reachable.start_stream)

lemma reachable_exited: "reachable os_exited demo_registry"
  using reachable_demo_registry env_step_exited by (rule reachable.env)

text \<open>
  A stream is started, its process exits by itself, and \<^verbatim>\<open>stop_stream\<close> then returns
  success without touching the record: the record is RUNNING and has no live process.
\<close>

theorem running_without_live_process:
  "demo_started = (Inr ((ok_result ''Stream started'')
                          \<lparr>stream_url := Some ''/hls/noise_white/stream.m3u8''\<rparr>),
                   demo_registry, os_started)
   \<and> env_step os_started os_exited
   \<and> demo_stopped = (ok_result ''Stream was not running'', demo_registry, os_exited)
   \<and> reachable os_exited demo_registry
   \<and> get_stream demo_registry ''noise_white'' = Some 0
   \<and> state (store demo_registry ! 0) = RUNNING
   \<and> \<not> is_running os_exited (runner (store demo_registry ! 0))"
proof -
  have 1: "demo_started = (Inr ((ok_result ''Stream started'')
                          \<lparr>stream_url := Some ''/hls/noise_white/stream.m3u8''\<rparr>),
                   demo_registry, os_started)"
    by (simp add: demo_started_eq ok_result_def)
  have 2: "get_stream demo_registry ''noise_white'' = Some 0"
    by (simp add: get_stream_def demo_registry_simps)
  have 3: "state (store demo_registry ! 0) = RUNNING"
    by (simp add: demo_registry_simps white_running_simps)
  have 4: "\<not> is_running os_exited (runner (store demo_registry ! 0))"
    by (simp add: demo_registry_simps white_running_simps is_running_def os_exited_def)
  from 1 env_step_exited demo_stopped_eq reachable_exited 2 3 4 show ?thesis by blast
qed

text \<open>
  C2 (as amended).  In every state reached from the initial one by moves of the
  environment and by registry operations that return a result: no record is in state
  STARTING; a record with a live process is RUNNING; a record without a live process is
  STOPPED, in ERROR, or RUNNING with the handle of a process that has exited.  And for
  every configured noise type, when \<^verbatim>\<open>start_stream\<close> returns a result, \<^verbatim>\<open>get_stream\<close>
  then finds the record RUNNING with a live process, or in ERROR with a non-empty error
  message.
\<close>

theorem start_then_get:
  assumes "reachable w m"
  shows "(\<forall>(sid, a) \<in> set (streams m).
            state (store m ! a) \<noteq> STARTING
            \<and> (is_running w (runner (store m ! a)) \<longrightarrow> state (store m ! a) = RUNNING)
            \<and> (\<not> is_running w (runner (store m ! a)) \<longrightarrow>
                 state (store m ! a) = STOPPED \<or> state (store m ! a) = ERROR
                 \<or> state (store m ! a) = RUNNING
                    \<and> (\<exists>p code. process (runner (store m ! a)) = Some p
                          \<and> returncode w p = Some code)))
         \<and> (\<forall>noise r m' w'.
              noise \<in> set (noise_types m)
              \<and> start_stream w m (''noise_'' @ noise) = (Inr r, m', w') \<longrightarrow>
              (\<exists>a. get_stream m' (''noise_'' @ noise) = Some a
                 \<and> (state (store m' ! a) = RUNNING \<and> is_running w' (runner (store m' ! a))
                     \<or> state (store m' ! a) = ERROR
                       \<and> (\<exists>msg. error_message (store m' ! a) = Some msg \<and> msg \<noteq> []))))"
proof (intro conjI ballI allI impI)
  from assms have inv: "registry_inv w m" by (rule reachable_inv)
  fix x assume x: "x \<in> set (streams m)"
  obtain sid a where xa: "x = (sid, a)" by (cases x)
  from registry_invD(2) [OF inv x [unfolded xa]]
  have ok: "info_ok w (base_hls_dir m) sid (store m ! a)" .
  then show "case x of (sid, a) \<Rightarrow>
            state (store m ! a) \<noteq> STARTING
            \<and> (is_running w (runner (store m ! a)) \<longrightarrow> state (store m ! a) = RUNNING)
            \<and> (\<not> is_running w (runner (store m ! a)) \<longrightarrow>
                 state (store m ! a) = STOPPED \<or> state (store m ! a) = ERROR
                 \<or> state (store m ! a) = RUNNING
                    \<and> (\<exists>p code. process (runner (store m ! a)) = Some p
                          \<and> returncode w p = Some code))"
    unfolding xa by (cases "state (store m ! a)") (auto simp: info_ok_def is_running_def)
next
  from assms have inv: "registry_inv w m" by (rule reachable_inv)
  fix noise r m' w'
  assume a: "noise \<in> set (noise_types m) \<and> start_stream w m (''noise_'' @ noise) = (Inr r, m', w')"
  have "startswith (''noise_'' @ noise) ''noise_''"
    "removeprefix (''noise_'' @ noise) ''noise_'' = noise"
    by (simp_all add: startswith_def removeprefix_def)
  with start_stream_inv [OF inv conjunct2 [OF a]] a
  have "resolved_at w' m' (''noise_'' @ noise)" by simp
  then show "\<exists>a. get_stream m' (''noise_'' @ noise) = Some a
                 \<and> (state (store m' ! a) = RUNNING \<and> is_running w' (runner (store m' ! a))
                     \<or> state (store m' ! a) = ERROR
                       \<and> (\<exists>msg. error_message (store m' ! a) = Some msg \<and> msg \<noteq> []))"
    by (auto simp: resolved_at_def resolved_def get_stream_def split: option.splits)
qed

theorem start_then_get_witness:
  "reachable demo_os demo_manager
   \<and> ''white'' \<in> set (noise_types demo_manager)
   \<and> start_stream demo_os demo_manager ''noise_white''
       = (Inr ((ok_result ''Stream started'')
                 \<lparr>stream_url := Some ''/hls/noise_white/stream.m3u8''\<rparr>),
          demo_registry, os_started)
   \<and> get_stream demo_registry ''noise_white'' = Some 0
   \<and> state (store demo_registry ! 0) = RUNNING
   \<and> is_running os_started (runner (store demo_registry ! 0))
   \<and> reachable os_started demo_registry
   \<and> (''noise_white'', 0) \<in> set (streams demo_registry)
   \<and> state (store demo_registry ! 0) \<noteq> STARTING"
proof -
  have r: "reachable demo_os demo_manager"
    unfolding demo_manager_def by (rule reachable.init) (simp add: demo_os_simps)
  have n: "''white'' \<in> set (noise_types demo_manager)" by (simp add: demo_manager_simps)
  have s: "start_stream demo_os demo_manager (''noise_'' @ ''white'')
             = (Inr ((ok_result ''Stream started'')
                       \<lparr>stream_url := Some ''/hls/noise_white/stream.m3u8''\<rparr>),
                demo_registry, os_started)"
    using demo_started_eq by (simp add: demo_started_def ok_result_def)
  have r': "reachable os_started demo_registry"
    using r s by (rule reachable.start_stream)
  have mem: "(''noise_white'', 0) \<in> set (streams demo_registry)"
    by (simp add: demo_registry_simps)
  from start_then_get [OF r] n s
  have "\<exists>a. get_stream demo_registry (''noise_'' @ ''white'') = Some a
          \<and> (state (store demo_registry ! a) = RUNNING
                \<and> is_running os_started (runner (store demo_registry ! a))
              \<or> state (store demo_registry ! a) = ERROR
                \<and> (\<exists>msg. error_message (store demo_registry ! a) = Some msg \<and> msg \<noteq> []))"
    by blast
  moreover have g: "get_stream demo_registry ''noise_white'' = Some 0"
    by (simp add: get_stream_def demo_registry_simps)
  moreover have st: "state (store demo_registry ! 0) = RUNNING"
    by (simp add: demo_registry_simps white_running_simps)
  moreover from start_then_get [OF r'] mem
  have "state (store demo_registry ! 0) \<noteq> STARTING" by blast
  ultimately show ?thesis using r n r' s mem by auto
qed

subsection \<open>\<^verbatim>\<open>start_all_streams\<close>\<close>


lemma build_command_nonempty: "build_command r \<noteq> []"
  by (simp add: build_command_def Let_def)
























subsection \<open>\<^verbatim>\<open>stop_stream\<close>\<close>

lemma stop_stream_live:
  assumes a: "map_of (streams m) sid = Some a" "a < length (store m)"
    and live: "is_running w (runner (store m ! a))"
    and run: "stop_stream w m sid = (r, m', w')"
  shows "r = ok_result ''Stream stopped'' \<and> streams m' = streams m
         \<and> process (runner (store m' ! a)) = None \<and> state (store m' ! a) = STOPPED
         \<and> \<not> is_running w' (runner (store m' ! a))"
proof -
  from live obtain p where p: "process (runner (store m ! a)) = Some p" "returncode w p = None"
    by (auto simp: is_running_def split: option.splits)
  then have st: "stop w (runner (store m ! a))
                   = (True, runner (store m ! a)\<lparr>process := None\<rparr>, terminated w p)"
    by (simp add: stop_def terminated_def)
  from run a live st show ?thesis
    by (auto simp: stop_stream_def store_set_info is_running_def)
qed

lemma stop_stream_idle:
  assumes a: "map_of (streams m) sid = Some a" and idle: "\<not> is_running w (runner (store m ! a))"
  shows "stop_stream w m sid = (ok_result ''Stream was not running'', m, w)"
  using assms by (simp add: stop_stream_def)

lemma stop_stream_unknown:
  "map_of (streams m) sid = None \<Longrightarrow> stop_stream w m sid = (error_result ''Stream not found'', m, w)"
  by (simp add: stop_stream_def)

text \<open>
  The process of \<^verbatim>\<open>noise_white\<close> has exited by itself: \<^verbatim>\<open>stop_stream\<close> succeeds as a
  no-op and the runner still holds the handle of the exited process.
\<close>

theorem stop_leaves_exited_handle:
  "reachable os_exited demo_registry
   \<and> stop_stream os_exited demo_registry ''noise_white''
     = (ok_result ''Stream was not running'', demo_registry, os_exited)
   \<and> success (ok_result ''Stream was not running'')
   \<and> get_stream demo_registry ''noise_white'' = Some 0
   \<and> process (runner (store demo_registry ! 0)) = Some 0"
proof -
  have 1: "stop_stream os_exited demo_registry ''noise_white''
             = (ok_result ''Stream was not running'', demo_registry, os_exited)"
    using demo_stopped_eq by (simp add: demo_stopped_def)
  have 2: "success (ok_result ''Stream was not running'')" by (simp add: ok_result_def)
  have 3: "get_stream demo_registry ''noise_white'' = Some 0"
    by (simp add: get_stream_def demo_registry_simps)
  have 4: "process (runner (store demo_registry ! 0)) = Some 0"
    by (simp add: demo_registry_simps white_running_simps)
  from reachable_exited 1 2 3 4 show ?thesis by blast
qed

text \<open>
  C4 (as amended).  After a successful \<^verbatim>\<open>stop_stream\<close>, a second \<^verbatim>\<open>stop_stream\<close> on the
  same identifier succeeds as a no-op (nothing changes, the message is "Stream was not
  running").  After either call the runner has no live process.  When the runner was
  live at the first call, the first call clears the handle and sets state STOPPED; when
  it was not live, the first call is itself a no-op (and leaves in place whatever handle
  of an exited process the runner holds).
\<close>

theorem stop_stream_idempotent:
  assumes inv: "registry_inv w m"
    and first: "stop_stream w m sid = (r1, m1, w1)" and ok: "success r1"
    and second: "stop_stream w1 m1 sid = (r2, m2, w2)"
  shows "success r2 \<and> r2 = ok_result ''Stream was not running'' \<and> m2 = m1 \<and> w2 = w1
         \<and> (\<exists>a. get_stream m sid = Some a \<and> get_stream m1 sid = Some a
               \<and> \<not> is_running w1 (runner (store m1 ! a))
               \<and> (live_at w m sid \<longrightarrow>
                     process (runner (store m1 ! a)) = None \<and> state (store m1 ! a) = STOPPED)
               \<and> (\<not> live_at w m sid \<longrightarrow> m1 = m \<and> w1 = w))"
proof (cases "map_of (streams m) sid")
  case None
  with first ok show ?thesis by (auto simp: stop_stream_unknown error_result_def)
next
  case (Some a)
  then have mem: "(sid, a) \<in> set (streams m)" by (rule map_of_SomeD)
  have a: "a < length (store m)" using registry_invD(1) [OF inv mem] .
  show ?thesis
  proof (cases "is_running w (runner (store m ! a))")
    case True
    from stop_stream_live [OF Some a True first]
    have 1: "streams m1 = streams m" "process (runner (store m1 ! a)) = None"
      "state (store m1 ! a) = STOPPED" "\<not> is_running w1 (runner (store m1 ! a))" by simp_all
    with Some have "map_of (streams m1) sid = Some a" by simp
    from stop_stream_idle [OF this 1(4)] second
    have "r2 = ok_result ''Stream was not running''" "m2 = m1" "w2 = w1" by simp_all
    with 1 Some True show ?thesis by (simp add: get_stream_def live_at_def ok_result_def)
  next
    case False
    from stop_stream_idle [OF Some False] first have 1: "m1 = m" "w1 = w" by simp_all
    with stop_stream_idle [OF Some False] second
    have "r2 = ok_result ''Stream was not running''" "m2 = m1" "w2 = w1" by simp_all
    with 1 Some False show ?thesis by (simp add: get_stream_def live_at_def ok_result_def)
  qed
qed

lemma registry_inv_demo_registry: "registry_inv os_started demo_registry"
proof -
  have "reachable demo_os demo_manager"
    unfolding demo_manager_def by (rule reachable.init) (simp add: demo_os_simps)
  moreover have "start_stream demo_os demo_manager ''noise_white''
      = (Inr \<lparr>success = True, message = Some ''Stream started'', error = None,
           stream_url = Some ''/hls/noise_white/stream.m3u8''\<rparr>, demo_registry, os_started)"
    using demo_started_eq by (simp add: demo_started_def)
  ultimately have "reachable os_started demo_registry" by (rule reachable.start_stream)
  then show ?thesis by (rule reachable_inv)
qed

theorem stop_stream_idempotent_witness:
  "registry_inv os_started demo_registry
   \<and> live_at os_started demo_registry ''noise_white''
   \<and> success (fst demo_halted)
   \<and> success (fst demo_halted_again)
   \<and> fst (snd demo_halted_again) = fst (snd demo_halted)
   \<and> snd (snd demo_halted_again) = snd (snd demo_halted)
   \<and> get_stream (fst (snd demo_halted)) ''noise_white'' = Some 0
   \<and> process (runner (store (fst (snd demo_halted)) ! 0)) = None
   \<and> state (store (fst (snd demo_halted)) ! 0) = STOPPED"
proof -
  have live: "live_at os_started demo_registry ''noise_white''"
    by (simp add: live_at_def demo_registry_simps is_running_def white_running_simps
        os_started_simps)
  have first: "stop_stream os_started demo_registry ''noise_white''
      = (fst demo_halted, fst (snd demo_halted), snd (snd demo_halted))"
    by (simp add: demo_halted_def)
  have ok: "success (fst demo_halted)"
    by (simp add: demo_halted_def stop_stream_def demo_registry_simps is_running_def
        white_running_simps os_started_simps stop_def ok_result_def)
  have second: "stop_stream (snd (snd demo_halted)) (fst (snd demo_halted)) ''noise_white''
      = (fst demo_halted_again, fst (snd demo_halted_again), snd (snd demo_halted_again))"
    by (simp add: demo_halted_again_def)
  have g: "get_stream demo_registry ''noise_white'' = Some 0"
    by (simp add: get_stream_def demo_registry_simps)
  from stop_stream_idempotent [OF registry_inv_demo_registry first ok second] live g
  show ?thesis using registry_inv_demo_registry ok by auto
qed

subsection \<open>Identifiers and lazy creation\<close>





subsection \<open>What the read operations return\<close>





subsection \<open>The health monitor\<close>






lemma h_process_running_eq [simp]:
  "h_process_running (StreamInfo_health_check w s) = is_running w (runner s)"
  by (simp add: StreamInfo_health_check_def Let_def rs_running_is_running split: prod.splits)

lemma h_stream_id_eq [simp]: "h_stream_id (StreamInfo_health_check w s) = stream_id s"
  by (simp add: StreamInfo_health_check_def Let_def split: prod.splits)




















subsection \<open>Records in state ERROR\<close>








end
